theory Spec2Isabelle
  imports Complex_Main "HOL-Library.Multiset" "HOL-Library.List_Lexorder" "HOL-Library.Sublist"
begin

section \<open>Python values reaching the prompt logger\<close>

subsection \<open>Strings\<close>

text \<open>
  A Python \<open>str\<close> is a sequence of Unicode code points, so a string is a list of code
  points here and \<open>lit\<close> turns an ASCII literal into one. Comparison of two \<open>str\<close>
  objects is lexicographic on code points, which is the order of lists of naturals.
\<close>

type_synonym pystr = "nat list"

definition lit :: "string \<Rightarrow> pystr" where
  "lit s = map of_char s"

text \<open>
  \<open>str.isspace\<close> for one code point: the characters Python's \<open>str.strip()\<close> removes when
  it is called without an argument.
\<close>

definition py_isspace :: "nat \<Rightarrow> bool" where
  "py_isspace c \<longleftrightarrow>
     (9 \<le> c \<and> c \<le> 13) \<or> (28 \<le> c \<and> c \<le> 32) \<or> c = 133 \<or> c = 160 \<or> c = 5760 \<or>
     (8192 \<le> c \<and> c \<le> 8202) \<or> c = 8232 \<or> c = 8233 \<or> c = 8239 \<or> c = 8287 \<or> c = 12288"

definition py_strip :: "pystr \<Rightarrow> pystr" where
  "py_strip s = rev (dropWhile py_isspace (rev (dropWhile py_isspace s)))"

definition endswith :: "pystr \<Rightarrow> pystr \<Rightarrow> bool" where
  "endswith s suf \<longleftrightarrow> suffix suf s"

subsection \<open>Decoded JSON\<close>

text \<open>
  \<open>json.loads\<close> returns \<open>None\<close>, \<open>bool\<close>, \<open>int\<close>, \<open>float\<close>, \<open>str\<close>, \<open>list\<close> or \<open>dict\<close>.
  A float is a real number, the negative zero, an infinity or NaN (the decoder accepts
  the literals \<open>NaN\<close>, \<open>Infinity\<close> and \<open>-Infinity\<close>). \<open>Finite 0\<close> is \<open>0.0\<close> and \<open>NegZero\<close> is
  \<open>-0.0\<close>: the two are equal under \<open>==\<close> and neither is below the other, but \<open>str\<close> and
  \<open>json.dumps\<close> print them differently. A \<open>dict\<close> is the list of its items in insertion
  order; its keys are strings.
\<close>

datatype pyfloat = Finite real | NegZero | PosInf | NegInf | NaN

datatype json =
    JNull
  | JBool bool
  | JInt int
  | JFloat pyfloat
  | JStr pystr
  | JArr "json list"
  | JObj "(pystr \<times> json) list"

text \<open>The exceptions that the modelled code can meet.\<close>

datatype pyerr =
    JSONDecodeError | RecursionError | AttributeError | TypeError | ValueError
  | UnicodeDecodeError | UnicodeEncodeError

subsection \<open>The command type table\<close>

definition COMMAND_TYPES :: "(int \<times> pystr) list" where
  "COMMAND_TYPES =
     [(1, lit ''chat''), (2, lit ''completion''), (3, lit ''insert''), (4, lit ''edit''),
      (5, lit ''delete''), (6, lit ''format''), (7, lit ''explain''), (8, lit ''test''),
      (9, lit ''fix''), (10, lit ''optimize'')]"

text \<open>
  \<open>isinstance(command_type, int)\<close>: \<open>bool\<close> is a subclass of \<open>int\<close> in Python, with
  \<open>True == 1\<close> and \<open>False == 0\<close> (and equal hashes), so a boolean passes the test and is
  looked up in the table as that integer. A float is not an \<open>int\<close>.
\<close>

fun as_int :: "json \<Rightarrow> int option" where
  "as_int (JInt n) = Some n"
| "as_int (JBool b) = Some (if b then 1 else 0)"
| "as_int _ = None"

text \<open>
  Lines 145-146:
  \<^verbatim>\<open>if isinstance(command_type, int) and command_type in COMMAND_TYPES:
      command_type = COMMAND_TYPES[command_type]\<close>
\<close>

definition resolve_command_type :: "json \<Rightarrow> json" where
  "resolve_command_type command_type =
     (case as_int command_type of
        None \<Rightarrow> command_type
      | Some n \<Rightarrow> (case map_of COMMAND_TYPES n of
                     None \<Rightarrow> command_type
                   | Some label \<Rightarrow> JStr label))"

subsection \<open>The clock\<close>

text \<open>
  \<open>datetime.datetime.now()\<close> is a naive local time; \<open>isoformat()\<close> prints it as
  \<open>YYYY-MM-DDTHH:MM:SS\<close>, followed by \<open>.ffffff\<close> when the microsecond is not zero.
\<close>

record datetime =
  year :: nat
  month :: nat
  day :: nat
  hour :: nat
  minute :: nat
  second :: nat
  microsecond :: nat

definition valid_datetime :: "datetime \<Rightarrow> bool" where
  "valid_datetime d \<longleftrightarrow>
     1 \<le> year d \<and> year d \<le> 9999 \<and> 1 \<le> month d \<and> month d \<le> 12 \<and>
     1 \<le> day d \<and> day d \<le> 31 \<and> hour d < 24 \<and> minute d < 60 \<and> second d < 60 \<and>
     microsecond d < 1000000"

text \<open>\<open>zpad w n\<close> is \<open>"%0wd" % n\<close>: the \<open>w\<close> lowest decimal digits when \<open>n < 10 ^ w\<close>.\<close>

fun zpad :: "nat \<Rightarrow> nat \<Rightarrow> pystr" where
  "zpad 0 n = (if n = 0 then [] else zpad 0 (n div 10) @ [48 + n mod 10])"
| "zpad (Suc w) n = zpad w (n div 10) @ [48 + n mod 10]"

declare zpad.simps(1) [simp del]

definition isoformat :: "datetime \<Rightarrow> pystr" where
  "isoformat d =
     zpad 4 (year d) @ lit ''-'' @ zpad 2 (month d) @ lit ''-'' @ zpad 2 (day d) @ lit ''T'' @
     zpad 2 (hour d) @ lit '':'' @ zpad 2 (minute d) @ lit '':'' @ zpad 2 (second d) @
     (if microsecond d = 0 then [] else lit ''.'' @ zpad 6 (microsecond d))"

text \<open>
  Reading the clock is an effect: \<open>now k\<close> is what the \<open>k\<close>-th call of
  \<open>datetime.datetime.now()\<close> of the run returns, and the functions below carry the number
  of calls made so far.
\<close>

type_synonym clock = "nat \<Rightarrow> datetime"

section \<open>Record extraction\<close>

text \<open>The dictionary built at lines 151-156.\<close>

record prompt_record =
  content :: json
  command_type :: json
  timestamp :: json
  raw_data :: "(pystr \<times> json) list"

definition key_text :: pystr where "key_text = lit ''text''"
definition key_commandType :: pystr where "key_commandType = lit ''commandType''"
definition key_timestamp :: pystr where "key_timestamp = lit ''timestamp''"

text \<open>\<open>d.get(k, default)\<close>.\<close>

definition dict_get :: "(pystr \<times> json) list \<Rightarrow> pystr \<Rightarrow> json \<Rightarrow> json" where
  "dict_get d k dflt = (case map_of d k of None \<Rightarrow> dflt | Some v \<Rightarrow> v)"

text \<open>
  \<open>prompt['text'].strip()\<close> as the condition of an \<open>if\<close>: only a \<open>str\<close> has the method,
  every other decoded value raises \<open>AttributeError\<close>. The result is true when the
  stripped string is not empty.
\<close>

fun strip_truthy :: "json \<Rightarrow> pyerr + bool" where
  "strip_truthy (JStr s) = Inr (py_strip s \<noteq> [])"
| "strip_truthy _ = Inl AttributeError"

text \<open>
  The body of the loop at lines 142-156, for one element \<open>prompt\<close>; \<open>t\<close> is the value of
  \<open>datetime.datetime.now()\<close> at line 149, which is called (the default of \<open>get\<close> is
  evaluated) whether or not the element has a timestamp. The result is the record
  appended, if any.
\<close>

definition loop_body :: "datetime \<Rightarrow> json \<Rightarrow> pyerr + prompt_record option" where
  "loop_body t prompt =
     (case prompt of
        JObj d \<Rightarrow>
          (case map_of d key_text of
             None \<Rightarrow> Inr None
           | Some text \<Rightarrow>
               (case strip_truthy text of
                  Inl e \<Rightarrow> Inl e
                | Inr False \<Rightarrow> Inr None
                | Inr True \<Rightarrow>
                    Inr (Some \<lparr> content = text,
                                command_type =
                                  resolve_command_type
                                    (dict_get d key_commandType (JStr (lit ''unknown''))),
                                timestamp = dict_get d key_timestamp (JStr (isoformat t)),
                                raw_data = d \<rparr>)))
      | _ \<Rightarrow> Inr None)"

text \<open>
  The \<open>for\<close> loop over the reversed array; \<open>k\<close> counts the clock readings made so far.
  An exception in the body leaves the loop and the function.
\<close>

fun extract_loop :: "clock \<Rightarrow> nat \<Rightarrow> json list \<Rightarrow> pyerr + prompt_record list" where
  "extract_loop now k [] = Inr []"
| "extract_loop now k (prompt # rest) =
     (case loop_body (now k) prompt of
        Inl e \<Rightarrow> Inl e
      | Inr None \<Rightarrow> extract_loop now k rest
      | Inr (Some r) \<Rightarrow>
          (case extract_loop now (Suc k) rest of
             Inl e \<Rightarrow> Inl e
           | Inr rs \<Rightarrow> Inr (r # rs)))"

text \<open>
  \<open>extract_prompts_from_value\<close>, lines 133-160. \<open>json.loads\<close> is the standard library's
  decoder and is a parameter: \<open>loads value\<close> is the decoded value, or the exception it
  raises. The function does not look at \<open>value\<close> before it hands it to \<open>json.loads\<close>, so
  \<open>value\<close> is of any type here: a \<open>str\<close> in the statements about strings, a cell of the
  database in \<open>main\<close>. The handler at line 159 catches \<open>JSONDecodeError\<close> only, whatever
  statement of the \<open>try\<close> block raised it. (The parameter \<open>workspace_files\<close> is not used by
  the function and is left out.)
\<close>

definition try_block :: "('v \<Rightarrow> pyerr + json) \<Rightarrow> clock \<Rightarrow> nat \<Rightarrow> 'v \<Rightarrow> pyerr + prompt_record list" where
  "try_block loads now k v =
     (case loads v of
        Inl e \<Rightarrow> Inl e
      | Inr prompts_data \<Rightarrow>
          (case prompts_data of
             JArr xs \<Rightarrow> extract_loop now k (rev xs)
           | _ \<Rightarrow> Inr []))"

definition extract_prompts_from_value ::
  "('v \<Rightarrow> pyerr + json) \<Rightarrow> clock \<Rightarrow> nat \<Rightarrow> 'v \<Rightarrow> pyerr + prompt_record list" where
  "extract_prompts_from_value loads now k v =
     (case try_block loads now k v of
        Inl JSONDecodeError \<Rightarrow> Inr []
      | other \<Rightarrow> other)"

section \<open>Ordering and rendering\<close>

subsection \<open>Comparing decoded values\<close>

text \<open>
  \<open>list.sort\<close> compares keys with \<open><\<close> only. Between decoded JSON values, \<open><\<close> is
  defined for two numbers (\<open>bool\<close>, \<open>int\<close>, \<open>float\<close>, compared by value, with every
  comparison against NaN false), for two strings (code points, lexicographically) and for
  two lists; every other pair raises \<open>TypeError\<close>, \<open>None < None\<close> and two dictionaries
  included.
\<close>

fun num_val :: "json \<Rightarrow> pyfloat option" where
  "num_val (JInt n) = Some (Finite (of_int n))"
| "num_val (JBool b) = Some (Finite (if b then 1 else 0))"
| "num_val (JFloat f) = Some f"
| "num_val _ = None"

fun float_lt :: "pyfloat \<Rightarrow> pyfloat \<Rightarrow> bool" where
  "float_lt NaN _ = False"
| "float_lt _ NaN = False"
| "float_lt _ NegInf = False"
| "float_lt NegInf _ = True"
| "float_lt PosInf _ = False"
| "float_lt _ PosInf = True"
| "float_lt (Finite a) (Finite b) = (a < b)"
| "float_lt (Finite a) NegZero = (a < 0)"
| "float_lt NegZero (Finite b) = (0 < b)"
| "float_lt NegZero NegZero = False"

text \<open>
  Equality of two items inside a list comparison (\<open>PyObject_RichCompareBool\<close>): the same
  object is equal to itself, and the decoder returns one and the same object for every
  \<open>NaN\<close>, so two NaNs count as equal there; otherwise \<open>==\<close> by value, under which the two
  zeros are equal.
\<close>

fun float_eq :: "pyfloat \<Rightarrow> pyfloat \<Rightarrow> bool" where
  "float_eq NegZero b = (b = NegZero \<or> b = Finite 0)"
| "float_eq (Finite a) b = (b = Finite a \<or> (a = 0 \<and> b = NegZero))"
| "float_eq a b = (a = b)"

definition num_eq :: "pyfloat \<Rightarrow> json \<Rightarrow> bool" where
  "num_eq f b = (case num_val b of None \<Rightarrow> False | Some g \<Rightarrow> float_eq f g)"

fun py_eq :: "json \<Rightarrow> json \<Rightarrow> bool"
  and py_eq_list :: "json list \<Rightarrow> json list \<Rightarrow> bool"
  and py_eq_items :: "(pystr \<times> json) list \<Rightarrow> (pystr \<times> json) list \<Rightarrow> bool" where
  "py_eq JNull b = (b = JNull)"
| "py_eq (JBool x) b = num_eq (Finite (if x then 1 else 0)) b"
| "py_eq (JInt n) b = num_eq (Finite (of_int n)) b"
| "py_eq (JFloat f) b = num_eq f b"
| "py_eq (JStr x) b = (b = JStr x)"
| "py_eq (JArr xs) b = (case b of JArr ys \<Rightarrow> py_eq_list xs ys | _ \<Rightarrow> False)"
| "py_eq (JObj d) b =
     (case b of JObj d' \<Rightarrow> length d = length d' \<and> py_eq_items d d' | _ \<Rightarrow> False)"
| "py_eq_list [] ys = (ys = [])"
| "py_eq_list (x # xs) ys = (case ys of [] \<Rightarrow> False | y # ys' \<Rightarrow> py_eq x y \<and> py_eq_list xs ys')"
| "py_eq_items [] d' = True"
| "py_eq_items ((k, v) # d) d' =
     (case map_of d' k of None \<Rightarrow> False | Some v' \<Rightarrow> py_eq v v' \<and> py_eq_items d d')"

fun py_lt :: "json \<Rightarrow> json \<Rightarrow> pyerr + bool"
  and py_lt_list :: "json list \<Rightarrow> json list \<Rightarrow> pyerr + bool" where
  "py_lt (JStr x) b = (case b of JStr y \<Rightarrow> Inr (x < y) | _ \<Rightarrow> Inl TypeError)"
| "py_lt (JArr xs) b = (case b of JArr ys \<Rightarrow> py_lt_list xs ys | _ \<Rightarrow> Inl TypeError)"
| "py_lt JNull b = Inl TypeError"
| "py_lt (JObj d) b = Inl TypeError"
| "py_lt a b =
     (case (num_val a, num_val b) of
        (Some x, Some y) \<Rightarrow> Inr (float_lt x y)
      | _ \<Rightarrow> Inl TypeError)"
| "py_lt_list [] ys = Inr (ys \<noteq> [])"
| "py_lt_list (x # xs) ys =
     (case ys of
        [] \<Rightarrow> Inr False
      | y # ys' \<Rightarrow> if py_eq x y then py_lt_list xs ys' else py_lt x y)"

subsection \<open>The sort of line 244\<close>

text \<open>
  \<open>all_prompts.sort(key=lambda x: x['timestamp'], reverse=True)\<close>. The library
  guarantees a stable sort that uses \<open><\<close> only and raises what a comparison raises; with
  \<open>reverse=True\<close> the list is reversed, sorted ascending and stably, and reversed again.
  Which pairs are compared is not part of the guarantee. The ascending sort is an
  insertion sort here: each record goes after the records whose key is not greater. Where
  \<open><\<close> orders the keys (strings, or numbers none of which is NaN) every stable sort
  returns the same list, the one of \<open>list.sort\<close>; where a key compares with no value at all
  (\<open>None\<close>, a dictionary) every sort of two or more records raises \<open>TypeError\<close>. With a NaN
  among the keys \<open><\<close> is not an order: \<open>list.sort\<close> leaves a permutation that depends on the
  runs it finds, and the insertion sort gives a permutation too, but not always that one.
  The statements below about the order of the result are about keys that are strings.
\<close>

definition sort_key :: "prompt_record \<Rightarrow> json" where
  "sort_key x = timestamp x"

fun insert_sorted :: "prompt_record \<Rightarrow> prompt_record list \<Rightarrow> pyerr + prompt_record list" where
  "insert_sorted x [] = Inr [x]"
| "insert_sorted x (y # ys) =
     (case py_lt (sort_key x) (sort_key y) of
        Inl e \<Rightarrow> Inl e
      | Inr True \<Rightarrow> Inr (x # y # ys)
      | Inr False \<Rightarrow>
          (case insert_sorted x ys of
             Inl e \<Rightarrow> Inl e
           | Inr zs \<Rightarrow> Inr (y # zs)))"

fun sort_ascending :: "prompt_record list \<Rightarrow> prompt_record list \<Rightarrow> pyerr + prompt_record list" where
  "sort_ascending [] acc = Inr acc"
| "sort_ascending (x # xs) acc =
     (case insert_sorted x acc of
        Inl e \<Rightarrow> Inl e
      | Inr acc' \<Rightarrow> sort_ascending xs acc')"

definition sort_prompts :: "prompt_record list \<Rightarrow> pyerr + prompt_record list" where
  "sort_prompts all_prompts =
     (case sort_ascending (rev all_prompts) [] of
        Inl e \<Rightarrow> Inl e
      | Inr sorted_asc \<Rightarrow> Inr (rev sorted_asc))"

subsection \<open>Writing the log\<close>

text \<open>
  \<open>str(v)\<close> inside an f-string and \<open>json.dumps(v, indent=2)\<close> belong to the standard
  library and are parameters of the renderer; neither raises on a decoded value.
\<close>

record formatter =
  str_of :: "json \<Rightarrow> pystr"
  dumps_indent2 :: "json \<Rightarrow> pystr"

text \<open>
  What the operating system does to the output file: nothing, \<open>open\<close> raises \<open>IOError\<close>,
  or the \<open>write\<close> call with the given index (counted from 0) raises it.
\<close>

datatype io_fault = NoFault | OpenFault | WriteFault nat

text \<open>The files of the output directory: a name has a content or does not exist.\<close>

type_synonym files = "pystr \<rightharpoonup> pystr"

definition newline :: pystr where "newline = [10]"

text \<open>The arguments of the \<open>f.write\<close> calls of lines 169-171, in order.\<close>

definition header_writes :: "datetime \<Rightarrow> pystr \<Rightarrow> pystr list" where
  "header_writes t workspace_path =
     [lit ''Cursor Prompts Log - Generated at '' @ isoformat t @ newline,
      lit ''Workspace: '' @ workspace_path @ newline,
      replicate 80 61 @ newline @ newline]"

text \<open>
  The arguments of the \<open>f.write\<close> calls of lines 174-185 for one record. A record built
  by \<open>extract_prompts_from_value\<close> has all four keys, so the defaults of \<open>get\<close> are not
  used.
\<close>

definition prompt_writes :: "formatter \<Rightarrow> prompt_record \<Rightarrow> pystr list" where
  "prompt_writes fmt prompt =
     [lit ''Timestamp: '' @ str_of fmt (timestamp prompt) @ newline,
      lit ''Command Type: '' @ str_of fmt (command_type prompt) @ newline,
      lit ''Content:'' @ newline,
      str_of fmt (content prompt) @ newline,
      newline @ lit ''Raw Data:'' @ newline] @
     map (\<lambda>(key, v). key @ lit '': '' @ dumps_indent2 fmt v @ newline) (raw_data prompt) @
     [replicate 80 45 @ newline @ newline]"

text \<open>
  A string holding a surrogate code point cannot be encoded as UTF-8: \<open>f.write\<close> raises
  \<open>UnicodeEncodeError\<close>, which is not an \<open>IOError\<close>.
\<close>

definition encodable :: "pystr \<Rightarrow> bool" where
  "encodable s = list_all (\<lambda>c. c < 55296 \<or> 57343 < c) s"

text \<open>
  The \<open>f.write\<close> calls from index \<open>i\<close> on, \<open>written\<close> being what has reached the file: the
  result is what the \<open>try\<close> block returns or raises, and the content of the file.
\<close>

fun write_calls :: "io_fault \<Rightarrow> nat \<Rightarrow> pystr list \<Rightarrow> pystr \<Rightarrow> (pyerr + bool) \<times> pystr" where
  "write_calls fault i [] written = (Inr True, written)"
| "write_calls fault i (c # cs) written =
     (if \<not> encodable c then (Inl UnicodeEncodeError, written)
      else if fault = WriteFault i then (Inr False, written)
      else write_calls fault (Suc i) cs (written @ c))"

text \<open>
  \<open>write_prompts_to_log\<close>, lines 162-189; \<open>t\<close> is the clock reading of line 169. Opening
  with mode \<open>'w'\<close> creates the file or empties it.
\<close>

definition write_prompts_to_log ::
  "formatter \<Rightarrow> io_fault \<Rightarrow> datetime \<Rightarrow> prompt_record list \<Rightarrow> pystr \<Rightarrow> pystr \<Rightarrow> files \<Rightarrow>
     (pyerr + bool) \<times> files" where
  "write_prompts_to_log fmt fault t prompts workspace_path output_file fs =
     (if prompts = [] then (Inr False, fs)
      else if fault = OpenFault then (Inr False, fs)
      else
        (case write_calls fault 0
                (header_writes t workspace_path @ concat (map (prompt_writes fmt) prompts)) [] of
           (res, written) \<Rightarrow> (res, fs(output_file \<mapsto> written))))"

subsection \<open>The orchestrator\<close>

text \<open>
  A cell of a row, as \<open>sqlite3\<close> hands it to Python: \<open>None\<close> for \<open>NULL\<close>, an \<open>int\<close>, a
  \<open>float\<close>, a \<open>str\<close> for text and \<open>bytes\<close> for a blob. The column \<open>value\<close> of \<open>ItemTable\<close>
  has no declared constraint that the code relies on, so each of them can reach line 234.
\<close>

datatype sqlvalue =
  SqlNull | SqlInteger int | SqlReal pyfloat | SqlText pystr | SqlBlob "nat list"

text \<open>
  \<open>json.loads(s)\<close> on a cell. The standard library decodes a \<open>str\<close>; it first turns
  \<open>bytes\<close> into a \<open>str\<close> (which raises \<open>UnicodeDecodeError\<close> on bytes that are no text in
  the detected encoding); for every other type it raises \<open>TypeError\<close>. \<open>decode\<close> is the
  decoder on strings and \<open>from_bytes\<close> the conversion of bytes, both parameters.
\<close>

definition json_loads ::
  "(pystr \<Rightarrow> pyerr + json) \<Rightarrow> (nat list \<Rightarrow> pyerr + pystr) \<Rightarrow> sqlvalue \<Rightarrow> pyerr + json" where
  "json_loads decode from_bytes s =
     (case s of
        SqlText t \<Rightarrow> decode t
      | SqlBlob b \<Rightarrow> (case from_bytes b of Inl e \<Rightarrow> Inl e | Inr t \<Rightarrow> decode t)
      | _ \<Rightarrow> Inl TypeError)"

text \<open>
  What the query of lines 223-226 gives for one database file: \<open>sqlite3.Error\<close>, or the
  rows whose key is \<open>aiService.prompts\<close>. Of a row the loop uses \<open>row_dict['value']\<close>
  only: a row is that cell, or \<open>None\<close> when the table has no column named \<open>value\<close> (line
  233).
\<close>

datatype store = StoreError | StoreRows "sqlvalue option list"

text \<open>The loop over the rows of one database, lines 231-236.\<close>

fun extract_rows ::
  "('v \<Rightarrow> pyerr + json) \<Rightarrow> clock \<Rightarrow> nat \<Rightarrow> 'v option list \<Rightarrow> pyerr + prompt_record list" where
  "extract_rows loads now k [] = Inr []"
| "extract_rows loads now k (None # rows) = extract_rows loads now k rows"
| "extract_rows loads now k (Some v # rows) =
     (case extract_prompts_from_value loads now k v of
        Inl e \<Rightarrow> Inl e
      | Inr prompts \<Rightarrow>
          (case extract_rows loads now (k + length prompts) rows of
             Inl e \<Rightarrow> Inl e
           | Inr later \<Rightarrow> Inr (prompts @ later)))"

text \<open>
  The loop over the database files, lines 220-239: a \<open>sqlite3.Error\<close> skips the file, any
  other exception leaves the loop.
\<close>

fun collect_prompts ::
  "(sqlvalue \<Rightarrow> pyerr + json) \<Rightarrow> clock \<Rightarrow> nat \<Rightarrow> store list \<Rightarrow> pyerr + prompt_record list" where
  "collect_prompts loads now k [] = Inr []"
| "collect_prompts loads now k (StoreError # dbs) = collect_prompts loads now k dbs"
| "collect_prompts loads now k (StoreRows rows # dbs) =
     (case extract_rows loads now k rows of
        Inl e \<Rightarrow> Inl e
      | Inr prompts \<Rightarrow>
          (case collect_prompts loads now (k + length prompts) dbs of
             Inl e \<Rightarrow> Inl e
           | Inr later \<Rightarrow> Inr (prompts @ later)))"

text \<open>
  How \<open>main\<close> ends: no database file was found (line 215), an exception reached the handler
  of line 252, or \<open>write_prompts_to_log\<close> returned.
\<close>

datatype outcome = NoDatabases | Failed pyerr | Rendered bool

text \<open>
  \<open>main\<close> from line 212 on; \<open>dbs\<close> has one entry for each path of \<open>find_cursor_dbs()\<close>, and
  \<open>decode\<close> and \<open>from_bytes\<close> are the two parts of \<open>json.loads\<close>.
\<close>

definition main ::
  "(pystr \<Rightarrow> pyerr + json) \<Rightarrow> (nat list \<Rightarrow> pyerr + pystr) \<Rightarrow> clock \<Rightarrow> formatter \<Rightarrow> io_fault \<Rightarrow>
     pystr \<Rightarrow> pystr \<Rightarrow> store list \<Rightarrow> files \<Rightarrow> outcome \<times> files" where
  "main decode from_bytes now fmt fault workspace_path output dbs fs =
     (if dbs = [] then (NoDatabases, fs)
      else
        (case collect_prompts (json_loads decode from_bytes) now 0 dbs of
           Inl e \<Rightarrow> (Failed e, fs)
         | Inr all_prompts \<Rightarrow>
             (case sort_prompts all_prompts of
                Inl e \<Rightarrow> (Failed e, fs)
              | Inr sorted_prompts \<Rightarrow>
                  (case write_prompts_to_log fmt fault (now (length all_prompts)) sorted_prompts
                          workspace_path output fs of
                     (Inl e, fs') \<Rightarrow> (Failed e, fs')
                   | (Inr ok, fs') \<Rightarrow> (Rendered ok, fs')))))"

section \<open>Storage discovery\<close>

text \<open>
  A path is the list of its components, as \<open>pathlib\<close> keeps it; \<open>base / "a/b"\<close> appends the
  components \<open>a\<close> and \<open>b\<close>. Two paths are the same when their components are.
\<close>

type_synonym path = "pystr list"

datatype platform_system = Darwin | Windows | Linux | OtherSystem

text \<open>
  The file system is a tree, without symbolic links, and every path is taken from its
  root (the override is an absolute path without \<open>..\<close>). A file carries whether
  \<open>sqlite3.connect\<close> followed by \<open>SELECT 1\<close> succeeds on it; a directory lists its entries
  in the order \<open>os.walk\<close> reports them.
\<close>

datatype fsnode = File bool | Dir "(pystr \<times> fsnode) list"

fun lookup :: "fsnode \<Rightarrow> path \<Rightarrow> fsnode option" where
  "lookup n [] = Some n"
| "lookup (File ok) (c # cs) = None"
| "lookup (Dir entries) (c # cs) =
     (case map_of entries c of None \<Rightarrow> None | Some n \<Rightarrow> lookup n cs)"

definition path_exists :: "fsnode \<Rightarrow> path \<Rightarrow> bool" where
  "path_exists tree p \<longleftrightarrow> lookup tree p \<noteq> None"

definition is_file :: "fsnode \<Rightarrow> path \<Rightarrow> bool" where
  "is_file tree p \<longleftrightarrow> (case lookup tree p of Some (File ok) \<Rightarrow> True | _ \<Rightarrow> False)"

definition common_paths :: "path list" where
  "common_paths =
     [[lit ''Cursor'', lit ''User'', lit ''workspaceStorage''],
      [lit ''Cursor'', lit ''User'', lit ''globalStorage''],
      [lit ''Cursor'', lit ''Storage''],
      [lit ''Cursor'', lit ''User'', lit ''state.vscdb'']]"

fun base_suffixes :: "platform_system \<Rightarrow> path list" where
  "base_suffixes Darwin =
     [[lit ''Library'', lit ''Application Support''], [lit ''Library'', lit ''Caches''],
      [lit ''Library'', lit ''Preferences'']]"
| "base_suffixes Windows =
     [[lit ''AppData'', lit ''Roaming''], [lit ''AppData'', lit ''Local''],
      [lit ''AppData'', lit ''LocalLow'']]"
| "base_suffixes Linux =
     [[lit ''.config''], [lit ''.local'', lit ''share''], [lit ''.cache'']]"
| "base_suffixes OtherSystem = [[]]"

definition base_paths :: "platform_system \<Rightarrow> path \<Rightarrow> path list" where
  "base_paths system home = map (\<lambda>b. home @ b) (base_suffixes system)"

text \<open>The combinations of lines 62-64, before the test of line 65.\<close>

definition combinations :: "platform_system \<Rightarrow> path \<Rightarrow> path list" where
  "combinations system home =
     concat (map (\<lambda>base. map (\<lambda>common. base @ common) common_paths) (base_paths system home))"

text \<open>
  \<open>get_cursor_storage_paths\<close>, lines 26-75. \<open>custom_path\<close> is \<open>None\<close> when
  \<open>CURSOR_STORAGE_PATH\<close> is unset or empty, and the path made of its value otherwise.
\<close>

definition get_cursor_storage_paths ::
  "platform_system \<Rightarrow> path \<Rightarrow> fsnode \<Rightarrow> path option \<Rightarrow> path list" where
  "get_cursor_storage_paths system home tree custom_path =
     (let paths = filter (path_exists tree) (combinations system home)
      in case custom_path of
           None \<Rightarrow> paths
         | Some cp \<Rightarrow> if path_exists tree cp then paths @ [cp] else paths)"

text \<open>Lines 85-93 for the files of one directory.\<close>

fun db_files_here :: "path \<Rightarrow> (pystr \<times> fsnode) list \<Rightarrow> path list" where
  "db_files_here dir [] = []"
| "db_files_here dir ((name, File ok) # entries) =
     (if (endswith name (lit ''.vscdb'') \<or> endswith name (lit ''.db'')) \<and> ok
      then (dir @ [name]) # db_files_here dir entries
      else db_files_here dir entries)"
| "db_files_here dir ((name, Dir sub) # entries) = db_files_here dir entries"

text \<open>
  The loop over \<open>os.walk(base_path)\<close>, lines 84-93: the files of a directory first, then
  its subdirectories one after the other.
\<close>

fun walk :: "path \<Rightarrow> fsnode \<Rightarrow> path list"
  and walk_subdirs :: "path \<Rightarrow> (pystr \<times> fsnode) list \<Rightarrow> path list" where
  "walk dir (File ok) = []"
| "walk dir (Dir entries) = db_files_here dir entries @ walk_subdirs dir entries"
| "walk_subdirs dir [] = []"
| "walk_subdirs dir ((name, node) # entries) =
     walk (dir @ [name]) node @ walk_subdirs dir entries"

text \<open>
  The body of the loop of line 80 for one candidate, lines 81-93: a file is taken as it
  is, a directory is walked.
\<close>

definition scan_candidate :: "fsnode \<Rightarrow> path \<Rightarrow> path list" where
  "scan_candidate tree base_path =
     (if is_file tree base_path then [base_path]
      else (case lookup tree base_path of
              None \<Rightarrow> []
            | Some node \<Rightarrow> walk base_path node))"

text \<open>\<open>find_cursor_dbs\<close>, lines 77-95.\<close>

definition find_cursor_dbs ::
  "platform_system \<Rightarrow> path \<Rightarrow> fsnode \<Rightarrow> path option \<Rightarrow> path list" where
  "find_cursor_dbs system home tree custom_path =
     concat (map (scan_candidate tree) (get_cursor_storage_paths system home tree custom_path))"

section \<open>Notions used in the statements\<close>

text \<open>The \<open>text\<close> field of an array element that is an object and has one.\<close>

fun text_field :: "json \<Rightarrow> json option" where
  "text_field (JObj d) = map_of d key_text"
| "text_field _ = None"

text \<open>
  A well-formed prompt element: an object whose \<open>text\<close> is a string that is not empty
  after trimming.
\<close>

definition well_formed :: "json \<Rightarrow> bool" where
  "well_formed p = (case text_field p of Some (JStr s) \<Rightarrow> py_strip s \<noteq> [] | _ \<Rightarrow> False)"

text \<open>An element whose \<open>text\<close> field, if it has one, is a string.\<close>

definition text_typed :: "json \<Rightarrow> bool" where
  "text_typed p = (case text_field p of None \<Rightarrow> True | Some (JStr s) \<Rightarrow> True | Some _ \<Rightarrow> False)"

fun is_array :: "json \<Rightarrow> bool" where
  "is_array (JArr xs) = True"
| "is_array _ = False"

text \<open>
  A decoder that is known on one input only: it decodes \<open>v\<close> to \<open>j\<close> and rejects every
  other string. It stands for \<open>json.loads\<close> in the examples.
\<close>

definition decodes_to :: "pystr \<Rightarrow> json \<Rightarrow> pystr \<Rightarrow> pyerr + json" where
  "decodes_to v j s = (if s = v then Inr j else Inl JSONDecodeError)"

text \<open>
  A decoder that answers \<open>r\<close> on \<open>v\<close> and is \<open>loads\<close> everywhere else, and a conversion of
  bytes for the examples, none of which holds a blob.
\<close>

definition answers ::
  "pystr \<Rightarrow> pyerr + json \<Rightarrow> (pystr \<Rightarrow> pyerr + json) \<Rightarrow> pystr \<Rightarrow> pyerr + json" where
  "answers v r loads s = (if s = v then r else loads s)"

definition no_blob :: "nat list \<Rightarrow> pyerr + pystr" where
  "no_blob b = Inl UnicodeDecodeError"

text \<open>
  The rows of the examples: \<open>hello_row\<close> is the text of an array of one prompt, \<open>hello\<close>,
  and \<open>sample_decode\<close> decodes it, decodes \<open>{}\<close> to the empty object and rejects every
  other text. \<open>hello_record t\<close> is the record of that prompt when the clock reads \<open>t\<close>.
\<close>

definition hello_row :: pystr where
  "hello_row = lit ''[{\"text\": \"hello\"}]''"

definition sample_decode :: "pystr \<Rightarrow> pyerr + json" where
  "sample_decode =
     answers (lit ''{}'') (Inr (JObj []))
       (decodes_to hello_row (JArr [JObj [(key_text, JStr (lit ''hello''))]]))"

definition hello_record :: "datetime \<Rightarrow> prompt_record" where
  "hello_record t =
     \<lparr> content = JStr (lit ''hello''), command_type = JStr (lit ''unknown''),
       timestamp = JStr (isoformat t), raw_data = [(key_text, JStr (lit ''hello''))] \<rparr>"

text \<open>
  A prompt with a timestamp and its record, and the three timestamps of the ordering
  example.
\<close>

definition dated_prompt :: "pystr \<Rightarrow> json" where
  "dated_prompt ts = JObj [(key_text, JStr (lit ''hello'')), (key_timestamp, JStr ts)]"

definition dated_record :: "pystr \<Rightarrow> prompt_record" where
  "dated_record ts =
     \<lparr> content = JStr (lit ''hello''), command_type = JStr (lit ''unknown''),
       timestamp = JStr ts,
       raw_data = [(key_text, JStr (lit ''hello'')), (key_timestamp, JStr ts)] \<rparr>"

definition jan1 :: pystr where "jan1 = lit ''2024-01-01T10:00:00''"
definition jan2 :: pystr where "jan2 = lit ''2024-01-02T10:00:00''"
definition jan3 :: pystr where "jan3 = lit ''2024-01-03T10:00:00''"

text \<open>
  A text of 100000 opening brackets, on which the decoder of the standard library
  exceeds the recursion limit.
\<close>

definition deep_brackets :: pystr where
  "deep_brackets = replicate 100000 91"

text \<open>A clock for the examples: one second later at each reading.\<close>

definition sample_clock :: clock where
  "sample_clock k =
     \<lparr> year = 2024, month = 5, day = 17, hour = 9, minute = 30, second = k mod 60,
       microsecond = 0 \<rparr>"

text \<open>
  The shape of an ISO 8601 date and time: \<open>YYYY-MM-DDTHH:MM:SS\<close>, alone or followed by a
  point and six digits.
\<close>

definition is_digit :: "nat \<Rightarrow> bool" where
  "is_digit c \<longleftrightarrow> 48 \<le> c \<and> c \<le> 57"

definition iso8601_like :: "pystr \<Rightarrow> bool" where
  "iso8601_like s \<longleftrightarrow>
     list_all is_digit (take 4 s) \<and> s ! 4 = 45 \<and>
     list_all is_digit (take 2 (drop 5 s)) \<and> s ! 7 = 45 \<and>
     list_all is_digit (take 2 (drop 8 s)) \<and> s ! 10 = 84 \<and>
     list_all is_digit (take 2 (drop 11 s)) \<and> s ! 13 = 58 \<and>
     list_all is_digit (take 2 (drop 14 s)) \<and> s ! 16 = 58 \<and>
     list_all is_digit (take 2 (drop 17 s)) \<and>
     (length s = 19 \<or> (length s = 26 \<and> s ! 19 = 46 \<and> list_all is_digit (drop 20 s)))"

text \<open>The string of a timestamp that is one.\<close>

fun the_str :: "json \<Rightarrow> pystr" where
  "the_str (JStr s) = s"
| "the_str _ = []"

text \<open>A formatter for the examples: a string is printed as it is.\<close>

definition sample_format :: formatter where
  "sample_format = \<lparr> str_of = the_str, dumps_indent2 = the_str \<rparr>"

fun is_str :: "json \<Rightarrow> bool" where
  "is_str (JStr s) = True"
| "is_str _ = False"

text \<open>
  Two paths are apart when neither is the other or lies inside it. The override is new
  when it is not a platform default that exists, and apart when it exists and is apart
  from every platform default that exists, or does not exist, or is not set.
\<close>

definition apart :: "path \<Rightarrow> path \<Rightarrow> bool" where
  "apart p q \<longleftrightarrow> \<not> prefix p q \<and> \<not> prefix q p"

fun override_new :: "platform_system \<Rightarrow> path \<Rightarrow> fsnode \<Rightarrow> path option \<Rightarrow> bool" where
  "override_new system home tree None = True"
| "override_new system home tree (Some cp) =
     (\<not> (path_exists tree cp \<and> cp \<in> set (combinations system home)))"

fun override_apart :: "platform_system \<Rightarrow> path \<Rightarrow> fsnode \<Rightarrow> path option \<Rightarrow> bool" where
  "override_apart system home tree None = True"
| "override_apart system home tree (Some cp) =
     (\<not> path_exists tree cp \<or>
      list_all (apart cp) (filter (path_exists tree) (combinations system home)))"

text \<open>
  The file system of the examples: the home directory \<open>/home/u\<close> of a Linux host, with
  \<open>.config/Cursor/User/globalStorage\<close> holding a database \<open>state.vscdb\<close> and a directory
  \<open>sub\<close> with a database \<open>a.db\<close>, and a directory \<open>/data\<close> with a database \<open>b.db\<close>.
\<close>

definition sample_home :: path where
  "sample_home = [lit ''home'', lit ''u'']"

definition global_storage :: path where
  "global_storage =
     [lit ''home'', lit ''u'', lit ''.config'', lit ''Cursor'', lit ''User'', lit ''globalStorage'']"

definition sample_tree :: fsnode where
  "sample_tree =
     Dir [(lit ''home'',
           Dir [(lit ''u'',
             Dir [(lit ''.config'',
               Dir [(lit ''Cursor'',
                 Dir [(lit ''User'',
                   Dir [(lit ''globalStorage'',
                     Dir [(lit ''state.vscdb'', File True),
                          (lit ''sub'', Dir [(lit ''a.db'', File True)])])])])])])]),
          (lit ''data'', Dir [(lit ''b.db'', File True)])]"

text \<open>The names inside every directory of a well-formed file system are distinct.\<close>

fun names_distinct :: "fsnode \<Rightarrow> bool"
  and names_distinct_entries :: "(pystr \<times> fsnode) list \<Rightarrow> bool" where
  "names_distinct (File ok) = True"
| "names_distinct (Dir entries) = (distinct (map fst entries) \<and> names_distinct_entries entries)"
| "names_distinct_entries [] = True"
| "names_distinct_entries ((name, node) # entries) =
     (names_distinct node \<and> names_distinct_entries entries)"


section \<open>Properties of the clock format\<close>

lemma zpad0: "zpad 0 0 = []" by (subst zpad.simps(1)) simp

lemma div2: "(n::nat) < 100 \<Longrightarrow> n div 10 div 10 = 0"
  by (simp add: div_mult2_eq[symmetric])

lemma div4: "(n::nat) < 10000 \<Longrightarrow> n div 10 div 10 div 10 div 10 = 0"
  by (simp add: div_mult2_eq[symmetric])

lemma div6: "(n::nat) < 1000000 \<Longrightarrow> n div 10 div 10 div 10 div 10 div 10 div 10 = 0"
  by (simp add: div_mult2_eq[symmetric])

lemma zpad2: "n < 100 \<Longrightarrow> zpad 2 n = [48 + n div 10 mod 10, 48 + n mod 10]"
proof -
  assume n: "n < 100"
  have two: "(2::nat) = Suc (Suc 0)" by simp
  have "zpad 2 n = zpad (Suc (Suc 0)) n" by (simp only: two)
  also have "\<dots> = zpad 0 (n div 10 div 10) @ [48 + n div 10 mod 10] @ [48 + n mod 10]"
    by simp
  finally show ?thesis using div2[OF n] by (simp add: zpad0)
qed

lemma zpad4:
  "n < 10000 \<Longrightarrow> zpad 4 n =
     [48 + n div 10 div 10 div 10 mod 10, 48 + n div 10 div 10 mod 10, 48 + n div 10 mod 10,
      48 + n mod 10]"
proof -
  assume n: "n < 10000"
  have four: "(4::nat) = Suc (Suc (Suc (Suc 0)))" by simp
  have "zpad 4 n = zpad (Suc (Suc (Suc (Suc 0)))) n" by (simp only: four)
  also have "\<dots> = zpad 0 (n div 10 div 10 div 10 div 10) @ [48 + n div 10 div 10 div 10 mod 10] @
      [48 + n div 10 div 10 mod 10] @ [48 + n div 10 mod 10] @ [48 + n mod 10]"
    by simp
  finally show ?thesis using div4[OF n] by (simp add: zpad0)
qed

lemma zpad6:
  "n < 1000000 \<Longrightarrow> zpad 6 n =
     [48 + n div 10 div 10 div 10 div 10 div 10 mod 10, 48 + n div 10 div 10 div 10 div 10 mod 10,
      48 + n div 10 div 10 div 10 mod 10, 48 + n div 10 div 10 mod 10, 48 + n div 10 mod 10,
      48 + n mod 10]"
proof -
  assume n: "n < 1000000"
  have six: "(6::nat) = Suc (Suc (Suc (Suc (Suc (Suc 0)))))" by simp
  have "zpad 6 n = zpad (Suc (Suc (Suc (Suc (Suc (Suc 0)))))) n" by (simp only: six)
  also have "\<dots> = zpad 0 (n div 10 div 10 div 10 div 10 div 10 div 10) @
      [48 + n div 10 div 10 div 10 div 10 div 10 mod 10] @
      [48 + n div 10 div 10 div 10 div 10 mod 10] @ [48 + n div 10 div 10 div 10 mod 10] @
      [48 + n div 10 div 10 mod 10] @ [48 + n div 10 mod 10] @ [48 + n mod 10]"
    by simp
  finally show ?thesis using div6[OF n] by (simp add: zpad0)
qed

lemma is_digit_mod: "is_digit (48 + m mod 10)"
  by (simp add: is_digit_def)

lemma isoformat_nonempty: "isoformat d \<noteq> []"
  by (simp add: isoformat_def lit_def)

lemma isoformat_shape:
  assumes "valid_datetime d"
  shows "iso8601_like (isoformat d)"
proof -
  from assms have b: "year d < 10000" "month d < 100" "day d < 100" "hour d < 100"
    "minute d < 100" "second d < 100" "microsecond d < 1000000"
    by (simp_all add: valid_datetime_def)
  show ?thesis
  proof (cases "microsecond d = 0")
    case True
    then show ?thesis
      by (simp add: isoformat_def iso8601_like_def lit_def zpad2[OF b(2)] zpad2[OF b(3)]
          zpad2[OF b(4)] zpad2[OF b(5)] zpad2[OF b(6)] zpad4[OF b(1)] is_digit_mod)
  next
    case False
    then show ?thesis
      by (simp add: isoformat_def iso8601_like_def lit_def zpad2[OF b(2)] zpad2[OF b(3)]
          zpad2[OF b(4)] zpad2[OF b(5)] zpad2[OF b(6)] zpad4[OF b(1)] zpad6[OF b(7)] is_digit_mod)
  qed
qed


section \<open>Properties of the extraction loop\<close>

lemma strip_truthy_Inl: "strip_truthy x = Inl e \<Longrightarrow> e = AttributeError \<and> (\<forall>s. x \<noteq> JStr s)"
  by (cases x) simp_all

lemma strip_truthy_Inr: "strip_truthy x = Inr b \<Longrightarrow> \<exists>s. x = JStr s \<and> b = (py_strip s \<noteq> [])"
  by (cases x) auto

lemma loop_body_Inl:
  "loop_body t p = Inl e \<Longrightarrow> e = AttributeError \<and> \<not> text_typed p"
  unfolding loop_body_def text_typed_def
  by (cases p) (auto split: option.splits sum.splits bool.splits json.splits dest: strip_truthy_Inl strip_truthy_Inr)

lemma loop_body_None:
  "loop_body t p = Inr None \<Longrightarrow> \<not> well_formed p \<and> text_typed p"
  unfolding loop_body_def text_typed_def well_formed_def
  by (cases p) (auto split: option.splits sum.splits bool.splits json.splits dest: strip_truthy_Inl strip_truthy_Inr)

lemma loop_body_Some:
  "loop_body t p = Inr (Some r) \<Longrightarrow> well_formed p \<and> text_typed p \<and> p = JObj (raw_data r)"
  unfolding loop_body_def text_typed_def well_formed_def
  by (cases p) (auto split: option.splits sum.splits bool.splits json.splits dest: strip_truthy_Inl strip_truthy_Inr)

lemma loop_body_typed:
  "text_typed p \<Longrightarrow> \<exists>r. loop_body t p = Inr r"
  by (cases "loop_body t p") (auto dest: loop_body_Inl)

lemma extract_loop_raw:
  "extract_loop now k xs = Inr rs \<Longrightarrow> map (\<lambda>r. JObj (raw_data r)) rs = filter well_formed xs"
proof (induction xs arbitrary: k rs)
  case Nil
  then show ?case by simp
next
  case (Cons p ps)
  show ?case
  proof (cases "loop_body (now k) p")
    case (Inl e)
    with Cons.prems show ?thesis by simp
  next
    case (Inr o1)
    show ?thesis
    proof (cases o1)
      case None
      with Inr Cons.prems have "extract_loop now k ps = Inr rs" by simp
      from Cons.IH[OF this] loop_body_None[of "now k" p] Inr None show ?thesis by simp
    next
      case (Some r)
      with Inr Cons.prems obtain rs' where r: "extract_loop now (Suc k) ps = Inr rs'" "rs = r # rs'"
        by (auto split: sum.splits)
      from Inr Some have lb: "loop_body (now k) p = Inr (Some r)" by simp
      from loop_body_Some[OF lb]
      have wf: "well_formed p" and pr: "JObj (raw_data r) = p" by blast+
      from Cons.IH[OF r(1)] wf pr r(2) show ?thesis by simp
    qed
  qed
qed

lemma extract_loop_typed:
  "\<forall>p\<in>set xs. text_typed p \<Longrightarrow> \<exists>rs. extract_loop now k xs = Inr rs"
proof (induction xs arbitrary: k)
  case Nil
  then show ?case by simp
next
  case (Cons p ps)
  from Cons.prems obtain o1 where o1: "loop_body (now k) p = Inr o1"
    using loop_body_typed[of p "now k"] by auto
  from Cons.prems have ps: "\<forall>p\<in>set ps. text_typed p" by simp
  show ?case
  proof (cases o1)
    case None
    with o1 Cons.IH[OF ps, of k] show ?thesis by simp
  next
    case (Some r)
    from Cons.IH[OF ps, of "Suc k"] obtain rs where "extract_loop now (Suc k) ps = Inr rs" by blast
    with o1 Some show ?thesis by simp
  qed
qed

lemma extract_loop_Inl:
  "extract_loop now k xs = Inl e \<Longrightarrow> e = AttributeError \<and> (\<exists>p\<in>set xs. \<not> text_typed p)"
proof (induction xs arbitrary: k)
  case Nil
  then show ?case by simp
next
  case (Cons p ps)
  show ?case
  proof (cases "loop_body (now k) p")
    case (Inl e')
    with Cons.prems have "e' = e" by simp
    with Inl loop_body_Inl[of "now k" p e] show ?thesis by simp
  next
    case (Inr o1)
    show ?thesis
    proof (cases o1)
      case None
      with Inr Cons.prems have "extract_loop now k ps = Inl e" by simp
      from Cons.IH[OF this] show ?thesis by auto
    next
      case (Some r)
      with Inr Cons.prems have "extract_loop now (Suc k) ps = Inl e" by (auto split: sum.splits)
      from Cons.IH[OF this] show ?thesis by auto
    qed
  qed
qed

lemma extract_loop_nth:
  "extract_loop now k xs = Inr rs \<Longrightarrow> i < length rs \<Longrightarrow>
     loop_body (now (k + i)) (JObj (raw_data (rs ! i))) = Inr (Some (rs ! i))"
proof (induction xs arbitrary: k rs i)
  case Nil
  then show ?case by simp
next
  case (Cons p ps)
  show ?case
  proof (cases "loop_body (now k) p")
    case (Inl e)
    with Cons.prems show ?thesis by simp
  next
    case (Inr o1)
    show ?thesis
    proof (cases o1)
      case None
      with Inr Cons.prems have "extract_loop now k ps = Inr rs" by simp
      from Cons.IH[OF this Cons.prems(2)] show ?thesis .
    next
      case (Some r)
      with Inr Cons.prems obtain rs' where r: "extract_loop now (Suc k) ps = Inr rs'" "rs = r # rs'"
        by (auto split: sum.splits)
      show ?thesis
      proof (cases i)
        case 0
        from Inr Some have lb: "loop_body (now k) p = Inr (Some r)" by simp
        from loop_body_Some[OF lb] have "JObj (raw_data r) = p" by blast
        with 0 r(2) lb show ?thesis by simp
      next
        case (Suc j)
        with Cons.prems(2) r(2) have "j < length rs'" by simp
        from Cons.IH[OF r(1) this] Suc r(2) show ?thesis by simp
      qed
    qed
  qed
qed


lemma try_block_array:
  "loads v = Inr (JArr xs) \<Longrightarrow> try_block loads now k v = extract_loop now k (rev xs)"
  by (simp add: try_block_def)

lemma extract_value_array_Inr:
  assumes "loads v = Inr (JArr xs)" and "extract_loop now k (rev xs) = Inr rs"
  shows "extract_prompts_from_value loads now k v = Inr rs"
  using assms by (simp add: extract_prompts_from_value_def try_block_array)

lemma extract_value_array_Inl:
  assumes "loads v = Inr (JArr xs)" and "extract_loop now k (rev xs) = Inl e"
  shows "extract_prompts_from_value loads now k v = Inl AttributeError"
proof -
  from extract_loop_Inl[OF assms(2)] have "e = AttributeError" by simp
  with assms show ?thesis by (simp add: extract_prompts_from_value_def try_block_array)
qed

lemma extract_value_array:
  assumes "loads v = Inr (JArr xs)"
  shows "extract_prompts_from_value loads now k v =
           (case extract_loop now k (rev xs) of Inl e \<Rightarrow> Inl AttributeError | Inr rs \<Rightarrow> Inr rs)"
proof (cases "extract_loop now k (rev xs)")
  case (Inl e)
  with extract_value_array_Inl[of loads v xs now k e, OF assms Inl] show ?thesis by simp
next
  case (Inr rs)
  with extract_value_array_Inr[of loads v xs now k rs, OF assms Inr] show ?thesis by simp
qed

lemma extract_value_no_array:
  assumes "loads v = Inl JSONDecodeError \<or> (\<exists>j. loads v = Inr j \<and> \<not> is_array j)"
  shows "extract_prompts_from_value loads now k v = Inr []"
proof (rule disjE[OF assms])
  assume "loads v = Inl JSONDecodeError"
  then show ?thesis by (simp add: extract_prompts_from_value_def try_block_def)
next
  assume "\<exists>j. loads v = Inr j \<and> \<not> is_array j"
  then obtain j where j: "loads v = Inr j" "\<not> is_array j" by blast
  then show ?thesis
    by (cases j) (simp_all add: extract_prompts_from_value_def try_block_def)
qed

lemma extract_value_Inr_cases:
  assumes "extract_prompts_from_value loads now k v = Inr rs"
  shows "rs = [] \<or> (\<exists>xs. loads v = Inr (JArr xs) \<and> extract_loop now k (rev xs) = Inr rs)"
proof (cases "loads v")
  case (Inl e)
  with assms show ?thesis
    by (cases e) (simp_all add: extract_prompts_from_value_def try_block_def)
next
  case (Inr j)
  show ?thesis
  proof (cases "is_array j")
    case False
    with Inr have "\<exists>j. loads v = Inr j \<and> \<not> is_array j" by blast
    from extract_value_no_array[of loads v now k, OF disjI2, OF this] assms
    show ?thesis by simp
  next
    case True
    then obtain xs where j: "j = JArr xs" by (cases j) simp_all
    with Inr have l: "loads v = Inr (JArr xs)" by simp
    from extract_value_array[of loads v xs now k, OF l] assms
    have "extract_loop now k (rev xs) = Inr rs" by (simp split: sum.splits)
    with l show ?thesis by blast
  qed
qed

lemma loop_body_fields:
  assumes "loop_body t (JObj d) = Inr (Some r)"
  shows "timestamp r = dict_get d key_timestamp (JStr (isoformat t))"
    and "command_type r =
           resolve_command_type (dict_get d key_commandType (JStr (lit ''unknown'')))"
    and "map_of d key_text = Some (content r)"
    and "raw_data r = d"
  using assms
  by (auto simp: loop_body_def split: option.splits sum.splits bool.splits)

lemma extract_value_nth:
  assumes "extract_prompts_from_value loads now k v = Inr rs" and "i < length rs"
  shows "loop_body (now (k + i)) (JObj (raw_data (rs ! i))) = Inr (Some (rs ! i))"
proof -
  from assms(2) have "rs \<noteq> []" by auto
  with extract_value_Inr_cases[OF assms(1)] obtain xs
    where "extract_loop now k (rev xs) = Inr rs" by blast
  from extract_loop_nth[OF this assms(2)] show ?thesis .
qed

lemma sample_clock_valid: "valid_datetime (sample_clock k)"
  by (simp add: valid_datetime_def sample_clock_def)

lemma isoformat_sample_clock_0: "isoformat (sample_clock 0) = lit ''2024-05-17T09:30:00''"
  by (simp add: isoformat_def sample_clock_def zpad2 zpad4 lit_def)

lemma strip_hello: "py_strip (lit ''hello'') \<noteq> []"
  by (simp add: py_strip_def py_isspace_def lit_def)

lemma keys_distinct [simp]:
  "key_text \<noteq> key_commandType" "key_text \<noteq> key_timestamp"
  "key_commandType \<noteq> key_text" "key_commandType \<noteq> key_timestamp"
  "key_timestamp \<noteq> key_text" "key_timestamp \<noteq> key_commandType"
  by (simp_all add: key_text_def key_commandType_def key_timestamp_def lit_def)

lemma resolve_str: "resolve_command_type (JStr s) = JStr s"
  by (simp add: resolve_command_type_def)

lemma extract_single:
  assumes "loop_body (now k) p = Inr (Some r)"
  shows "extract_prompts_from_value (decodes_to v (JArr [p])) now k v = Inr [r]"
  using assms by (simp add: extract_prompts_from_value_def try_block_def decodes_to_def)

lemma strip_first: "py_strip (lit ''first'') \<noteq> []"
  by (simp add: py_strip_def py_isspace_def lit_def)

lemma strip_second: "py_strip (lit ''second'') \<noteq> []"
  by (simp add: py_strip_def py_isspace_def lit_def)

lemma first_neq_second: "lit ''first'' \<noteq> lit ''second''"
  by (simp add: lit_def)

text \<open>
  The command type resolution on the values of the specification: an integer key of the
  table becomes its label, every other integer and every value that is not an \<open>int\<close>
  stays as it is, and a missing field is \<open>unknown\<close>.
\<close>

lemma resolve_int_mapped:
  "map_of COMMAND_TYPES n = Some label \<Longrightarrow> resolve_command_type (JInt n) = JStr label"
  by (simp add: resolve_command_type_def)

lemma resolve_int_unmapped:
  "n < 1 \<or> 10 < n \<Longrightarrow> resolve_command_type (JInt n) = JInt n"
  by (auto simp: resolve_command_type_def COMMAND_TYPES_def)

lemma resolve_not_int:
  "as_int c = None \<Longrightarrow> resolve_command_type c = c"
  by (simp add: resolve_command_type_def)

lemma resolve_examples:
  "resolve_command_type (JInt 9) = JStr (lit ''fix'')"
  "resolve_command_type (JInt 42) = JInt 42"
  "resolve_command_type (JStr (lit ''custom'')) = JStr (lit ''custom'')"
  "resolve_command_type (dict_get [(key_text, t)] key_commandType (JStr (lit ''unknown''))) =
     JStr (lit ''unknown'')"
  by (simp_all add: resolve_command_type_def COMMAND_TYPES_def dict_get_def)

lemma resolve_true: "resolve_command_type (JBool True) = JStr (lit ''chat'')"
  by (simp add: resolve_command_type_def COMMAND_TYPES_def)

lemma resolve_false: "resolve_command_type (JBool False) = JBool False"
  by (simp add: resolve_command_type_def COMMAND_TYPES_def)


section \<open>Properties of the loops over rows and stores\<close>

lemma json_loads_text: "json_loads decode from_bytes (SqlText t) = decode t"
  by (simp add: json_loads_def)

lemma json_loads_no_text:
  "json_loads decode from_bytes SqlNull = Inl TypeError"
  "json_loads decode from_bytes (SqlInteger n) = Inl TypeError"
  "json_loads decode from_bytes (SqlReal f) = Inl TypeError"
  by (simp_all add: json_loads_def)

text \<open>An exception of the decoder that is not \<open>JSONDecodeError\<close> leaves the function.\<close>

lemma extract_value_raises:
  assumes "loads v = Inl e" and "e \<noteq> JSONDecodeError"
  shows "extract_prompts_from_value loads now k v = Inl e"
  using assms by (cases e) (simp_all add: extract_prompts_from_value_def try_block_def)

lemma extract_rows_raises:
  assumes "extract_prompts_from_value loads now k v = Inl e"
  shows "extract_rows loads now k (Some v # rows) = Inl e"
  using assms by simp

lemma collect_prompts_raises:
  assumes "extract_rows loads now k rows = Inl e"
  shows "collect_prompts loads now k (StoreRows rows # dbs) = Inl e"
  using assms by simp

lemma main_raises:
  assumes "collect_prompts (json_loads decode from_bytes) now 0 dbs = Inl e"
  shows "main decode from_bytes now fmt fault workspace_path output dbs fs = (Failed e, fs)"
proof -
  from assms have "dbs \<noteq> []" by auto
  with assms show ?thesis by (simp add: main_def)
qed

text \<open>A row that yields no record can be taken out of the rows of its store.\<close>

lemma extract_rows_drop:
  assumes "\<And>k. extract_prompts_from_value loads now k v = Inr []"
  shows "extract_rows loads now k (before @ Some v # after) =
           extract_rows loads now k (before @ after)"
proof (induction before arbitrary: k)
  case Nil
  show ?case by (simp add: assms split: sum.splits)
next
  case (Cons r rs)
  show ?case
  proof (cases r)
    case None
    then show ?thesis by (simp add: Cons.IH)
  next
    case (Some w)
    then show ?thesis by (simp add: Cons.IH split: sum.splits)
  qed
qed

lemma collect_prompts_cong:
  assumes "\<And>k. extract_rows loads now k rows = extract_rows loads now k rows'"
  shows "collect_prompts loads now k (dbs1 @ StoreRows rows # dbs2) =
           collect_prompts loads now k (dbs1 @ StoreRows rows' # dbs2)"
proof (induction dbs1 arbitrary: k)
  case Nil
  show ?case by (simp add: assms)
next
  case (Cons d ds)
  show ?case
  proof (cases d)
    case StoreError
    then show ?thesis by (simp add: Cons.IH)
  next
    case (StoreRows rs)
    then show ?thesis by (simp add: Cons.IH split: sum.splits)
  qed
qed

text \<open>The rows of the examples.\<close>

lemma hello_row_neq: "hello_row \<noteq> lit ''{}''" "hello_row \<noteq> lit ''not json''"
  by (simp_all add: hello_row_def lit_def)

lemma sample_decode_values:
  "sample_decode hello_row = Inr (JArr [JObj [(key_text, JStr (lit ''hello''))]])"
  "sample_decode (lit ''{}'') = Inr (JObj [])"
  "sample_decode (lit ''not json'') = Inl JSONDecodeError"
  by (simp_all add: sample_decode_def answers_def decodes_to_def hello_row_def lit_def)

lemma hello_loop:
  "extract_loop now k (rev [JObj [(key_text, JStr (lit ''hello''))]]) = Inr [hello_record (now k)]"
  by (simp add: loop_body_def strip_hello dict_get_def resolve_str hello_record_def)

lemma extract_hello_row:
  assumes "decode hello_row = Inr (JArr [JObj [(key_text, JStr (lit ''hello''))]])"
  shows "extract_prompts_from_value (json_loads decode from_bytes) now k (SqlText hello_row) =
           Inr [hello_record (now k)]"
proof -
  from assms have "json_loads decode from_bytes (SqlText hello_row) =
      Inr (JArr [JObj [(key_text, JStr (lit ''hello''))]])"
    by (simp add: json_loads_text)
  from extract_value_array_Inr[of "json_loads decode from_bytes" "SqlText hello_row" _ now k,
      OF this hello_loop]
  show ?thesis .
qed

lemma deep_brackets_neq: "length s \<noteq> 100000 \<Longrightarrow> s \<noteq> deep_brackets"
  by (auto simp: deep_brackets_def)

lemma deep_decode_values:
  "answers deep_brackets (Inl RecursionError) sample_decode deep_brackets = Inl RecursionError"
  "answers deep_brackets (Inl RecursionError) sample_decode hello_row =
     Inr (JArr [JObj [(key_text, JStr (lit ''hello''))]])"
proof -
  show "answers deep_brackets (Inl RecursionError) sample_decode deep_brackets = Inl RecursionError"
    by (simp add: answers_def)
  have "hello_row \<noteq> deep_brackets"
    by (rule deep_brackets_neq) (simp add: hello_row_def lit_def)
  then show "answers deep_brackets (Inl RecursionError) sample_decode hello_row =
     Inr (JArr [JObj [(key_text, JStr (lit ''hello''))]])"
    by (simp add: answers_def sample_decode_values)
qed

section \<open>Properties of the sort\<close>

lemma insert_sorted_mset:
  "insert_sorted x ys = Inr zs \<Longrightarrow> mset zs = add_mset x (mset ys)"
proof (induction ys arbitrary: zs)
  case Nil
  then show ?case by auto
next
  case (Cons y ys)
  show ?case
  proof (cases "py_lt (sort_key x) (sort_key y)")
    case (Inl e)
    with Cons.prems show ?thesis by simp
  next
    case (Inr b)
    show ?thesis
    proof (cases b)
      case True
      with Inr Cons.prems show ?thesis by auto
    next
      case False
      with Inr Cons.prems obtain zs' where z: "insert_sorted x ys = Inr zs'" "zs = y # zs'"
        by (auto split: sum.splits)
      from Cons.IH[OF z(1)] z(2) show ?thesis by simp
    qed
  qed
qed

lemma sort_ascending_mset:
  "sort_ascending xs acc = Inr zs \<Longrightarrow> mset zs = mset xs + mset acc"
proof (induction xs arbitrary: acc zs)
  case Nil
  then show ?case by simp
next
  case (Cons x xs)
  from Cons.prems obtain acc' where a: "insert_sorted x acc = Inr acc'"
    "sort_ascending xs acc' = Inr zs"
    by (auto split: sum.splits)
  from Cons.IH[OF a(2)] insert_sorted_mset[OF a(1)] show ?case by simp
qed

lemma sort_prompts_mset:
  assumes "sort_prompts ps = Inr qs"
  shows "mset qs = mset ps"
proof -
  from assms obtain zs where z: "sort_ascending (rev ps) [] = Inr zs" "qs = rev zs"
    by (auto simp: sort_prompts_def split: sum.splits)
  from sort_ascending_mset[OF z(1)] z(2) show ?thesis by simp
qed

lemma null_timestamp_breaks_sort:
  "timestamp a = JNull \<or> timestamp b = JNull \<Longrightarrow> sort_prompts [a, b] = Inl TypeError"
  by (cases "timestamp a"; cases "timestamp b")
     (auto simp: sort_prompts_def sort_key_def split: option.splits)

text \<open>
  On keys that are strings the sort returns, and its result is the one list that is a
  permutation of the records, descending in the keys and stable.
\<close>

lemma py_lt_str: "py_lt (JStr a) (JStr b) = Inr (a < b)"
  by simp

lemma is_str_the_str: "is_str j \<Longrightarrow> j = JStr (the_str j)"
  by (cases j) simp_all

lemma insert_sorted_str:
  assumes "is_str (timestamp x)" and "\<forall>y\<in>set ys. is_str (timestamp y)"
    and "sorted_wrt (\<lambda>a b. the_str (timestamp a) \<le> the_str (timestamp b)) ys"
  shows "\<exists>zs. insert_sorted x ys = Inr zs \<and>
           sorted_wrt (\<lambda>a b. the_str (timestamp a) \<le> the_str (timestamp b)) zs \<and>
           set zs = insert x (set ys) \<and>
           (\<forall>t. filter (\<lambda>r. timestamp r = t) zs =
                 filter (\<lambda>r. timestamp r = t) ys @ (if timestamp x = t then [x] else []))"
  using assms(2,3)
proof (induction ys)
  case Nil
  then show ?case by simp
next
  case (Cons y ys)
  from assms(1) have kx: "timestamp x = JStr (the_str (timestamp x))" by (rule is_str_the_str)
  from Cons.prems(1) have ky: "timestamp y = JStr (the_str (timestamp y))"
    by (simp add: is_str_the_str)
  have lt: "py_lt (sort_key x) (sort_key y) = Inr (the_str (timestamp x) < the_str (timestamp y))"
    unfolding sort_key_def by (subst kx, subst ky) (rule py_lt_str)
  show ?case
  proof (cases "the_str (timestamp x) < the_str (timestamp y)")
    case True
    have none: "filter (\<lambda>r. timestamp r = timestamp x) (y # ys) = []"
    proof -
      have "timestamp r \<noteq> timestamp x" if "r \<in> set (y # ys)" for r
      proof
        assume eq: "timestamp r = timestamp x"
        from that Cons.prems(2) have "the_str (timestamp y) \<le> the_str (timestamp r)" by auto
        with eq True show False by simp
      qed
      then show ?thesis by (simp add: filter_empty_conv)
    qed
    have srt: "sorted_wrt (\<lambda>a b. the_str (timestamp a) \<le> the_str (timestamp b)) (x # y # ys)"
      using True Cons.prems(2) by (auto intro: less_imp_le order_trans)
    have flt: "filter (\<lambda>r. timestamp r = t) (x # y # ys) =
                 filter (\<lambda>r. timestamp r = t) (y # ys) @ (if timestamp x = t then [x] else [])" for t
    proof (cases "timestamp x = t")
      case True
      with none show ?thesis by auto
    next
      case False
      then show ?thesis by simp
    qed
    from True lt have "insert_sorted x (y # ys) = Inr (x # y # ys)" by simp
    with srt flt show ?thesis by auto
  next
    case False
    then have le: "the_str (timestamp y) \<le> the_str (timestamp x)" by simp
    from Cons.prems have "\<forall>y\<in>set ys. is_str (timestamp y)"
      and "sorted_wrt (\<lambda>a b. the_str (timestamp a) \<le> the_str (timestamp b)) ys" by simp_all
    from Cons.IH[OF this] obtain zs where zs: "insert_sorted x ys = Inr zs"
      "sorted_wrt (\<lambda>a b. the_str (timestamp a) \<le> the_str (timestamp b)) zs"
      "set zs = insert x (set ys)"
      "\<And>t. filter (\<lambda>r. timestamp r = t) zs =
                 filter (\<lambda>r. timestamp r = t) ys @ (if timestamp x = t then [x] else [])"
      by blast
    from False lt zs(1) have r: "insert_sorted x (y # ys) = Inr (y # zs)" by simp
    have srt: "sorted_wrt (\<lambda>a b. the_str (timestamp a) \<le> the_str (timestamp b)) (y # zs)"
      using zs(2,3) le Cons.prems(2) by auto
    have st: "set (y # zs) = insert x (set (y # ys))" using zs(3) by auto
    have flt: "filter (\<lambda>r. timestamp r = t) (y # zs) =
                 filter (\<lambda>r. timestamp r = t) (y # ys) @ (if timestamp x = t then [x] else [])" for t
      using zs(4)[of t] by simp
    from r srt st flt show ?thesis by blast
  qed
qed

lemma sort_ascending_str:
  assumes "\<forall>x\<in>set xs. is_str (timestamp x)" and "\<forall>y\<in>set acc. is_str (timestamp y)"
    and "sorted_wrt (\<lambda>a b. the_str (timestamp a) \<le> the_str (timestamp b)) acc"
  shows "\<exists>zs. sort_ascending xs acc = Inr zs \<and>
           sorted_wrt (\<lambda>a b. the_str (timestamp a) \<le> the_str (timestamp b)) zs \<and>
           (\<forall>t. filter (\<lambda>r. timestamp r = t) zs =
                 filter (\<lambda>r. timestamp r = t) acc @ filter (\<lambda>r. timestamp r = t) xs)"
  using assms
proof (induction xs arbitrary: acc)
  case Nil
  then show ?case by simp
next
  case (Cons x xs)
  from Cons.prems have x: "is_str (timestamp x)" by simp
  from insert_sorted_str[OF x Cons.prems(2,3)] obtain acc' where a: "insert_sorted x acc = Inr acc'"
      "sorted_wrt (\<lambda>a b. the_str (timestamp a) \<le> the_str (timestamp b)) acc'"
      "set acc' = insert x (set acc)"
      "\<And>t. filter (\<lambda>r. timestamp r = t) acc' =
                 filter (\<lambda>r. timestamp r = t) acc @ (if timestamp x = t then [x] else [])"
    by blast
  from Cons.prems a(3) x have "\<forall>x\<in>set xs. is_str (timestamp x)"
    and "\<forall>y\<in>set acc'. is_str (timestamp y)" by simp_all
  from Cons.IH[OF this a(2)] obtain zs where z: "sort_ascending xs acc' = Inr zs"
      "sorted_wrt (\<lambda>a b. the_str (timestamp a) \<le> the_str (timestamp b)) zs"
      "\<And>t. filter (\<lambda>r. timestamp r = t) zs =
                 filter (\<lambda>r. timestamp r = t) acc' @ filter (\<lambda>r. timestamp r = t) xs"
    by blast
  from a(1) z(1) have "sort_ascending (x # xs) acc = Inr zs" by simp
  moreover have "filter (\<lambda>r. timestamp r = t) zs =
                 filter (\<lambda>r. timestamp r = t) acc @ filter (\<lambda>r. timestamp r = t) (x # xs)" for t
    using z(3)[of t] a(4)[of t] by simp
  ultimately show ?case using z(2) by blast
qed

lemma sort_prompts_str:
  assumes "\<forall>r\<in>set ps. is_str (timestamp r)"
  shows "\<exists>qs. sort_prompts ps = Inr qs \<and>
           sorted_wrt (\<lambda>a b. the_str (timestamp b) \<le> the_str (timestamp a)) qs \<and>
           (\<forall>t. filter (\<lambda>r. timestamp r = t) qs = filter (\<lambda>r. timestamp r = t) ps)"
proof -
  from assms have "\<forall>x\<in>set (rev ps). is_str (timestamp x)" by simp
  from sort_ascending_str[OF this, of "[]"] obtain zs where z: "sort_ascending (rev ps) [] = Inr zs"
      "sorted_wrt (\<lambda>a b. the_str (timestamp a) \<le> the_str (timestamp b)) zs"
      "\<And>t. filter (\<lambda>r. timestamp r = t) zs = filter (\<lambda>r. timestamp r = t) (rev ps)"
    by auto
  from z(1) have s: "sort_prompts ps = Inr (rev zs)" by (simp add: sort_prompts_def)
  from z(2) have d: "sorted_wrt (\<lambda>a b. the_str (timestamp b) \<le> the_str (timestamp a)) (rev zs)"
    by (simp add: sorted_wrt_rev)
  have f: "filter (\<lambda>r. timestamp r = t) (rev zs) = filter (\<lambda>r. timestamp r = t) ps" for t
    using z(3)[of t] by (simp add: rev_filter[symmetric])
  from s d f show ?thesis by blast
qed

lemma sorted_wrt_adjacent:
  "sorted_wrt P xs \<Longrightarrow> Suc i < length xs \<Longrightarrow> P (xs ! i) (xs ! Suc i)"
  by (simp add: sorted_wrt_iff_nth_less)

lemma main_renders_sorted:
  assumes "dbs \<noteq> []" and "collect_prompts (json_loads decode from_bytes) now 0 dbs = Inr ps"
    and "sort_prompts ps = Inr qs"
  shows "main decode from_bytes now fmt fault workspace_path output dbs fs =
           (case write_prompts_to_log fmt fault (now (length ps)) qs workspace_path output fs of
              (Inl e, fs') \<Rightarrow> (Failed e, fs')
            | (Inr ok, fs') \<Rightarrow> (Rendered ok, fs'))"
  using assms by (simp add: main_def)

text \<open>What a rendering without a fault writes, and the records of the examples.\<close>

lemma write_calls_ok:
  "list_all encodable cs \<Longrightarrow> write_calls NoFault i cs w = (Inr True, w @ concat cs)"
  by (induction cs arbitrary: i w) simp_all

lemma write_prompts_to_log_ok:
  assumes "prompts \<noteq> []"
    and "list_all encodable (header_writes t workspace_path @ concat (map (prompt_writes fmt) prompts))"
  shows "write_prompts_to_log fmt NoFault t prompts workspace_path output_file fs =
           (Inr True, fs(output_file \<mapsto>
              concat (header_writes t workspace_path @ concat (map (prompt_writes fmt) prompts))))"
  using assms(1) write_calls_ok[OF assms(2), of 0 "[]"]
  by (simp add: write_prompts_to_log_def)

lemma encodable_append [simp]: "encodable (a @ b) \<longleftrightarrow> encodable a \<and> encodable b"
  by (simp add: encodable_def)

lemma encodable_replicate: "c < 55296 \<Longrightarrow> encodable (replicate n c)"
  by (simp add: encodable_def list_all_iff)

lemma encodable_isoformat:
  assumes "valid_datetime d"
  shows "encodable (isoformat d)"
proof -
  from assms have b: "year d < 10000" "month d < 100" "day d < 100" "hour d < 100"
    "minute d < 100" "second d < 100" "microsecond d < 1000000"
    by (simp_all add: valid_datetime_def)
  have m: "48 + k mod 10 < (55296::nat)" for k
  proof -
    have "k mod 10 < 10" by simp
    then show ?thesis by linarith
  qed
  show ?thesis
    by (simp add: isoformat_def encodable_def lit_def zpad2[OF b(2)] zpad2[OF b(3)]
          zpad2[OF b(4)] zpad2[OF b(5)] zpad2[OF b(6)] zpad4[OF b(1)] zpad6[OF b(7)] m)
qed

lemma dated_loop:
  "loop_body t (dated_prompt ts) = Inr (Some (dated_record ts))"
  by (simp add: loop_body_def dated_prompt_def dated_record_def strip_hello dict_get_def resolve_str)

lemma dated_records_encodable:
  "list_all encodable (prompt_writes sample_format (dated_record jan1))"
  "list_all encodable (prompt_writes sample_format (dated_record jan2))"
  "list_all encodable (prompt_writes sample_format (dated_record jan3))"
  by (simp_all add: prompt_writes_def sample_format_def dated_record_def jan1_def jan2_def jan3_def
        newline_def key_text_def key_timestamp_def encodable_replicate)
     (simp_all add: encodable_def lit_def)

lemma header_encodable:
  "list_all encodable (header_writes (sample_clock k) (lit ''ws''))"
  by (simp add: header_writes_def encodable_isoformat sample_clock_valid encodable_replicate newline_def)
     (simp add: encodable_def lit_def)

lemma jan_order:
  "jan1 < jan2" "jan2 < jan3" "jan1 < jan3"
  "\<not> jan2 < jan1" "\<not> jan3 < jan2" "\<not> jan3 < jan1"
  by (simp_all add: jan1_def jan2_def jan3_def lit_def)

lemma sort_jan:
  "sort_prompts [dated_record jan3, dated_record jan1, dated_record jan2] =
     Inr [dated_record jan3, dated_record jan2, dated_record jan1]"
  by (simp add: sort_prompts_def sort_key_def dated_record_def jan_order)

section \<open>Properties of the storage discovery\<close>

text \<open>
  The platform defaults are distinct and none lies inside another; a walk returns distinct
  paths below its directory; so two candidates that are apart are scanned into disjoint
  lists.
\<close>

lemma lit_eq: "lit a = lit b \<longleftrightarrow> a = b"
  unfolding lit_def by (rule inj_map_eq_map) (simp add: inj_on_def)

lemma combinations_suffixes:
  "combinations system home =
     map (\<lambda>s. home @ s) (concat (map (\<lambda>b. map (\<lambda>c. b @ c) common_paths) (base_suffixes system)))"
proof -
  have h: "(@) (home @ x) = (\<lambda>c. home @ x @ c)" for x :: path by auto
  show ?thesis
    by (simp add: combinations_def base_paths_def map_concat comp_def h)
qed

lemma suffixes_distinct:
  "distinct (concat (map (\<lambda>b. map (\<lambda>c. b @ c) common_paths) (base_suffixes system)))"
  by (cases system) (simp_all add: common_paths_def lit_eq)


lemma suffixes_apart_all:
  "list_all (\<lambda>a. list_all (\<lambda>b. \<not> prefix a b \<or> a = b)
       (concat (map (\<lambda>b. map (\<lambda>c. b @ c) common_paths) (base_suffixes system))))
     (concat (map (\<lambda>b. map (\<lambda>c. b @ c) common_paths) (base_suffixes system)))"
  by (cases system) (simp_all add: common_paths_def lit_eq)

lemma suffixes_apart:
  "a \<in> set (concat (map (\<lambda>b. map (\<lambda>c. b @ c) common_paths) (base_suffixes system))) \<Longrightarrow>
   b \<in> set (concat (map (\<lambda>b. map (\<lambda>c. b @ c) common_paths) (base_suffixes system))) \<Longrightarrow>
   prefix a b \<Longrightarrow> a = b"
  using suffixes_apart_all[of system] unfolding list_all_iff by blast


lemma combinations_distinct: "distinct (combinations system home)"
  unfolding combinations_suffixes
  by (simp add: distinct_map suffixes_distinct inj_on_def)

lemma combinations_apart:
  assumes "a \<in> set (combinations system home)" and "b \<in> set (combinations system home)"
    and "prefix a b"
  shows "a = b"
proof -
  from assms(1,2) obtain a' b' where
    a: "a = home @ a'" "a' \<in> set (concat (map (\<lambda>b. map (\<lambda>c. b @ c) common_paths) (base_suffixes system)))"
    and b: "b = home @ b'" "b' \<in> set (concat (map (\<lambda>b. map (\<lambda>c. b @ c) common_paths) (base_suffixes system)))"
    unfolding combinations_suffixes by auto
  from assms(3) a(1) b(1) have "prefix a' b'" by simp
  from suffixes_apart[OF a(2) b(2) this] a(1) b(1) show ?thesis by simp
qed

lemma db_files_here_mem:
  "p \<in> set (db_files_here dir entries) \<Longrightarrow> \<exists>name. name \<in> fst ` set entries \<and> p = dir @ [name]"
  by (induction dir entries rule: db_files_here.induct) (auto split: if_splits)

lemma db_files_here_distinct:
  "distinct (map fst entries) \<Longrightarrow> distinct (db_files_here dir entries)"
  by (induction dir entries rule: db_files_here.induct) (auto dest: db_files_here_mem)

lemma walk_mem:
  "p \<in> set (walk dir node) \<Longrightarrow> strict_prefix dir p"
  "p \<in> set (walk_subdirs dir entries) \<Longrightarrow>
     \<exists>name. name \<in> fst ` set entries \<and> strict_prefix (dir @ [name]) p"
proof (induction dir node and dir entries arbitrary: p and p rule: walk_walk_subdirs.induct)
  case (1 dir ok)
  then show ?case by simp
next
  case (2 dir entries)
  from "2.prems" consider "p \<in> set (db_files_here dir entries)" | "p \<in> set (walk_subdirs dir entries)"
    by auto
  then show ?case
  proof cases
    case 1
    from db_files_here_mem[OF this] show ?thesis by (auto simp: strict_prefix_def)
  next
    case 2
    from "2.IH"[OF this] obtain name where "strict_prefix (dir @ [name]) p" by blast
    then show ?thesis by (auto simp: strict_prefix_def prefix_def)
  qed
next
  case (3 dir)
  then show ?case by simp
next
  case (4 dir name node entries)
  from "4.prems" consider "p \<in> set (walk (dir @ [name]) node)" | "p \<in> set (walk_subdirs dir entries)"
    by auto
  then show ?case
  proof cases
    case 1
    from "4.IH"(1)[OF this] show ?thesis by auto
  next
    case 2
    from "4.IH"(2)[OF this] show ?thesis by auto
  qed
qed


lemma walk_distinct:
  "names_distinct node \<Longrightarrow> distinct (walk dir node)"
  "distinct (map fst entries) \<Longrightarrow> names_distinct_entries entries \<Longrightarrow>
     distinct (walk_subdirs dir entries)"
proof (induction dir node and dir entries rule: walk_walk_subdirs.induct)
  case (1 dir ok)
  then show ?case by simp
next
  case (2 dir entries)
  from "2.prems" have d: "distinct (map fst entries)" and n: "names_distinct_entries entries"
    by simp_all
  have "p \<notin> set (walk_subdirs dir entries)" if "p \<in> set (db_files_here dir entries)" for p
  proof
    assume "p \<in> set (walk_subdirs dir entries)"
    from walk_mem(2)[OF this] obtain name where "strict_prefix (dir @ [name]) p" by blast
    then have "length dir + 1 < length p" by (auto simp: strict_prefix_def prefix_def)
    moreover from db_files_here_mem[OF that] have "length p = length dir + 1" by auto
    ultimately show False by simp
  qed
  with db_files_here_distinct[OF d, of dir] "2.IH"[OF d n] show ?case by auto
next
  case (3 dir)
  then show ?case by simp
next
  case (4 dir name node entries)
  from "4.prems" have nn: "name \<notin> fst ` set entries" and d: "distinct (map fst entries)"
    and n1: "names_distinct node" and n2: "names_distinct_entries entries"
    by simp_all
  have "p \<notin> set (walk_subdirs dir entries)" if "p \<in> set (walk (dir @ [name]) node)" for p
  proof
    assume "p \<in> set (walk_subdirs dir entries)"
    from walk_mem(2)[OF this] obtain name' where n': "name' \<in> fst ` set entries"
      "strict_prefix (dir @ [name']) p" by blast
    from walk_mem(1)[OF that] have "strict_prefix (dir @ [name]) p" .
    with n'(2) have "name = name'" by (auto simp: strict_prefix_def prefix_def append_eq_append_conv2 Cons_eq_append_conv)
    with nn n'(1) show False by simp
  qed
  with "4.IH"(1)[OF n1] "4.IH"(2)[OF d n2] show ?case by auto
qed

lemma names_distinct_entries_mem:
  "names_distinct_entries entries \<Longrightarrow> (c, n) \<in> set entries \<Longrightarrow> names_distinct n"
  by (induction entries) auto

lemma lookup_names_distinct:
  "names_distinct n \<Longrightarrow> lookup n p = Some node \<Longrightarrow> names_distinct node"
proof (induction n p rule: lookup.induct)
  case (1 n)
  then show ?case by simp
next
  case (2 ok c cs)
  then show ?case by simp
next
  case (3 entries c cs)
  from "3.prems"(2) obtain n where n: "map_of entries c = Some n" "lookup n cs = Some node"
    by (auto split: option.splits)
  from n(1) have "(c, n) \<in> set entries" by (rule map_of_SomeD)
  with "3.prems"(1) have "names_distinct n" by (auto dest: names_distinct_entries_mem)
  from "3.IH"[OF n(1) this n(2)] show ?case .
qed

lemma scan_candidate_prefix: "p \<in> set (scan_candidate tree b) \<Longrightarrow> prefix b p"
  by (auto simp: scan_candidate_def split: if_splits option.splits dest: walk_mem(1))

lemma scan_candidate_distinct: "names_distinct tree \<Longrightarrow> distinct (scan_candidate tree b)"
  by (auto simp: scan_candidate_def split: option.splits
      intro: walk_distinct(1) lookup_names_distinct)

lemma distinct_concat_map:
  assumes "distinct xs" and "\<And>x. x \<in> set xs \<Longrightarrow> distinct (f x)"
    and "\<And>x y. x \<in> set xs \<Longrightarrow> y \<in> set xs \<Longrightarrow> x \<noteq> y \<Longrightarrow> set (f x) \<inter> set (f y) = {}"
  shows "distinct (concat (map f xs))"
  using assms
proof (induction xs)
  case Nil
  then show ?case by simp
next
  case (Cons x xs)
  have "distinct (concat (map f xs))"
    by (rule Cons.IH) (use Cons.prems in auto)
  moreover have "distinct (f x)" using Cons.prems(2) by simp
  moreover have "set (f x) \<inter> set (f y) = {}" if "y \<in> set xs" for y
    using Cons.prems(1) Cons.prems(3)[of x y] that by auto
  ultimately show ?case by auto
qed

lemma scan_apart_distinct:
  assumes "names_distinct tree" and "distinct cs"
    and "\<And>a b. a \<in> set cs \<Longrightarrow> b \<in> set cs \<Longrightarrow> prefix a b \<Longrightarrow> a = b"
  shows "distinct (concat (map (scan_candidate tree) cs))"
proof (rule distinct_concat_map[OF assms(2)])
  fix x assume "x \<in> set cs"
  show "distinct (scan_candidate tree x)" using assms(1) by (rule scan_candidate_distinct)
next
  fix x y assume xy: "x \<in> set cs" "y \<in> set cs" "x \<noteq> y"
  show "set (scan_candidate tree x) \<inter> set (scan_candidate tree y) = {}"
  proof (rule ccontr)
    assume "set (scan_candidate tree x) \<inter> set (scan_candidate tree y) \<noteq> {}"
    then obtain p where "p \<in> set (scan_candidate tree x)" "p \<in> set (scan_candidate tree y)" by blast
    then have "prefix x p" "prefix y p" by (auto dest: scan_candidate_prefix)
    then have "prefix x y \<or> prefix y x" by (rule prefix_same_cases)
    with assms(3)[OF xy(1,2)] assms(3)[OF xy(2,1)] xy(3) show False by auto
  qed
qed

lemma candidates_new:
  "distinct (get_cursor_storage_paths system home tree custom_path) \<longleftrightarrow>
     override_new system home tree custom_path"
proof (cases custom_path)
  case None
  then show ?thesis by (simp add: get_cursor_storage_paths_def Let_def combinations_distinct)
next
  case (Some cp)
  then show ?thesis
    by (auto simp: get_cursor_storage_paths_def Let_def combinations_distinct)
qed

lemma candidates_apart:
  assumes "override_apart system home tree custom_path"
    and "a \<in> set (get_cursor_storage_paths system home tree custom_path)"
    and "b \<in> set (get_cursor_storage_paths system home tree custom_path)"
    and "prefix a b"
  shows "a = b"
proof -
  let ?ds = "filter (path_exists tree) (combinations system home)"
  have dd: "x = y" if "x \<in> set ?ds" "y \<in> set ?ds" "prefix x y" for x y
    using that combinations_apart[of x system home y] by simp
  show ?thesis
  proof (cases custom_path)
    case None
    with assms(2,3,4) dd show ?thesis by (simp add: get_cursor_storage_paths_def Let_def)
  next
    case (Some cp)
    show ?thesis
    proof (cases "path_exists tree cp")
      case False
      with Some assms(2,3,4) dd show ?thesis by (simp add: get_cursor_storage_paths_def Let_def)
    next
      case True
      with Some assms(1) have ap: "\<And>d. d \<in> set ?ds \<Longrightarrow> apart cp d"
        by (simp add: list_all_iff)
      from True Some assms(2,3) have "a \<in> set ?ds \<or> a = cp" "b \<in> set ?ds \<or> b = cp"
        by (auto simp: get_cursor_storage_paths_def Let_def)
      with assms(4) dd ap show ?thesis by (auto simp: apart_def)
    qed
  qed
qed

lemma override_apart_new:
  "override_apart system home tree custom_path \<Longrightarrow> override_new system home tree custom_path"
  by (cases custom_path) (auto simp: list_all_iff apart_def)

text \<open>The file system of the examples.\<close>

lemma sample_candidates:
  "filter (path_exists sample_tree) (combinations Linux sample_home) = [global_storage]"
  by (simp add: combinations_def base_paths_def common_paths_def sample_home_def sample_tree_def
        path_exists_def global_storage_def lit_eq)

lemma sample_exists:
  "path_exists sample_tree global_storage"
  "path_exists sample_tree (global_storage @ [lit ''sub''])"
  "path_exists sample_tree [lit ''data'']"
  by (simp_all add: sample_tree_def path_exists_def global_storage_def lit_eq)

lemma db_names:
  "endswith (lit ''state.vscdb'') (lit ''.vscdb'')"
  "endswith (lit ''a.db'') (lit ''.db'')"
  "endswith (lit ''b.db'') (lit ''.db'')"
  by (simp_all add: endswith_def suffix_to_prefix lit_def)

lemma sample_scans:
  "scan_candidate sample_tree global_storage =
     [global_storage @ [lit ''state.vscdb''], global_storage @ [lit ''sub'', lit ''a.db'']]"
  "scan_candidate sample_tree (global_storage @ [lit ''sub'']) =
     [global_storage @ [lit ''sub'', lit ''a.db'']]"
  "scan_candidate sample_tree [lit ''data''] = [[lit ''data'', lit ''b.db'']]"
  by (simp_all add: scan_candidate_def is_file_def sample_tree_def global_storage_def lit_eq
        db_names)

lemma sample_names_distinct: "names_distinct sample_tree"
  by (simp add: sample_tree_def lit_eq)

section \<open>The claims\<close>


text \<open>
  C1. An array should yield one record for each well-formed element and none for the
  others, however they are interleaved. The array \<open>[{"text": null}, {"text": "hello"}]\<close>
  has one well-formed element, and the code yields no record for it: the element whose
  \<open>text\<close> is \<open>null\<close> raises \<open>AttributeError\<close> after the record of the other has been built,
  and the function returns nothing.
\<close>

theorem well_formed_record_lost:
  assumes "loads v =
     Inr (JArr [JObj [(key_text, JNull)], JObj [(key_text, JStr (lit ''hello''))]])"
  shows "filter well_formed [JObj [(key_text, JNull)], JObj [(key_text, JStr (lit ''hello''))]] =
           [JObj [(key_text, JStr (lit ''hello''))]] \<and>
         extract_prompts_from_value loads now k v = Inl AttributeError"
proof -
  have "extract_loop now k (rev [JObj [(key_text, JNull)], JObj [(key_text, JStr (lit ''hello''))]]) =
          Inl AttributeError"
    by (simp add: loop_body_def strip_hello)
  from extract_value_array_Inl[of loads v _ now k, OF assms this]
  show ?thesis by (simp add: well_formed_def strip_hello)
qed

text \<open>The same at a decoder and a clock.\<close>

theorem well_formed_record_lost_witness:
  "decodes_to (lit ''row'')
      (JArr [JObj [(key_text, JNull)], JObj [(key_text, JStr (lit ''hello''))]]) (lit ''row'') =
     Inr (JArr [JObj [(key_text, JNull)], JObj [(key_text, JStr (lit ''hello''))]]) \<and>
   extract_prompts_from_value
      (decodes_to (lit ''row'')
         (JArr [JObj [(key_text, JNull)], JObj [(key_text, JStr (lit ''hello''))]]))
      sample_clock 0 (lit ''row'') = Inl AttributeError"
proof -
  let ?loads = "decodes_to (lit ''row'')
      (JArr [JObj [(key_text, JNull)], JObj [(key_text, JStr (lit ''hello''))]])"
  have h: "?loads (lit ''row'') =
     Inr (JArr [JObj [(key_text, JNull)], JObj [(key_text, JStr (lit ''hello''))]])"
    by (simp add: decodes_to_def)
  from well_formed_record_lost[of ?loads "lit ''row''" sample_clock 0, OF h] h
  show ?thesis by simp
qed


text \<open>
  C2. \<open>extract_prompts_from_value\<close> should return a list and never raise, whatever the
  types of the fields of the array elements. It raises: on an element whose \<open>text\<close> is the
  number \<open>5\<close>, \<open>prompt['text'].strip()\<close> raises \<open>AttributeError\<close>, which the handler of
  line 159 does not catch.
\<close>

theorem non_string_text_raises:
  assumes "loads v = Inr (JArr [JObj [(key_text, JInt 5)]])"
  shows "extract_prompts_from_value loads now k v = Inl AttributeError"
proof -
  have "extract_loop now k (rev [JObj [(key_text, JInt 5)]]) = Inl AttributeError"
    by (simp add: loop_body_def)
  from extract_value_array_Inl[of loads v _ now k, OF assms this] show ?thesis .
qed

text \<open>The same at a decoder and a clock.\<close>

theorem non_string_text_raises_witness:
  "decodes_to (lit ''row'') (JArr [JObj [(key_text, JInt 5)]]) (lit ''row'') =
     Inr (JArr [JObj [(key_text, JInt 5)]]) \<and>
   extract_prompts_from_value (decodes_to (lit ''row'') (JArr [JObj [(key_text, JInt 5)]]))
      sample_clock 0 (lit ''row'') = Inl AttributeError"
proof -
  have h: "decodes_to (lit ''row'') (JArr [JObj [(key_text, JInt 5)]]) (lit ''row'') =
     Inr (JArr [JObj [(key_text, JInt 5)]])"
    by (simp add: decodes_to_def)
  from non_string_text_raises[of "decodes_to (lit ''row'') (JArr [JObj [(key_text, JInt 5)]])"
      "lit ''row''" sample_clock 0, OF h] h
  show ?thesis by simp
qed


text \<open>
  C3. Neither function removes duplicates: the platform defaults are distinct by
  themselves and the override is appended without a look at them. The list of
  \<open>get_cursor_storage_paths\<close> has no duplicate exactly when the override is not set, does
  not exist or is not one of the platform defaults that exist. The list of
  \<open>find_cursor_dbs\<close> has no duplicate when, moreover, the override does not lie inside a
  platform default that exists and holds none (in a file system whose directories have
  distinct entry names).
\<close>

theorem no_duplicates_unless_override_overlaps:
  "(distinct (get_cursor_storage_paths system home tree custom_path) \<longleftrightarrow>
      override_new system home tree custom_path) \<and>
   (names_distinct tree \<and> override_apart system home tree custom_path \<longrightarrow>
      distinct (find_cursor_dbs system home tree custom_path))"
proof (intro conjI impI)
  show "distinct (get_cursor_storage_paths system home tree custom_path) \<longleftrightarrow>
      override_new system home tree custom_path"
    by (rule candidates_new)
next
  assume h: "names_distinct tree \<and> override_apart system home tree custom_path"
  then have n: "names_distinct tree" and o: "override_apart system home tree custom_path"
    by simp_all
  from override_apart_new[OF o]
  have d: "distinct (get_cursor_storage_paths system home tree custom_path)"
    by (simp add: candidates_new)
  show "distinct (find_cursor_dbs system home tree custom_path)"
    unfolding find_cursor_dbs_def
    by (rule scan_apart_distinct[OF n d]) (rule candidates_apart[OF o])
qed

text \<open>
  The override \<open>/data\<close>, apart from the one default that exists: two candidates and three
  stores, all distinct.
\<close>

theorem no_duplicates_unless_override_overlaps_witness:
  "names_distinct sample_tree \<and>
   override_apart Linux sample_home sample_tree (Some [lit ''data'']) \<and>
   override_new Linux sample_home sample_tree (Some [lit ''data'']) \<and>
   get_cursor_storage_paths Linux sample_home sample_tree (Some [lit ''data'']) =
     [global_storage, [lit ''data'']] \<and>
   find_cursor_dbs Linux sample_home sample_tree (Some [lit ''data'']) =
     [global_storage @ [lit ''state.vscdb''], global_storage @ [lit ''sub'', lit ''a.db''],
      [lit ''data'', lit ''b.db'']] \<and>
   distinct (get_cursor_storage_paths Linux sample_home sample_tree (Some [lit ''data''])) \<and>
   distinct (find_cursor_dbs Linux sample_home sample_tree (Some [lit ''data'']))"
proof -
  have a: "override_apart Linux sample_home sample_tree (Some [lit ''data''])"
    by (simp add: sample_candidates apart_def global_storage_def lit_eq)
  have c: "get_cursor_storage_paths Linux sample_home sample_tree (Some [lit ''data'']) =
     [global_storage, [lit ''data'']]"
    by (simp add: get_cursor_storage_paths_def sample_candidates sample_exists)
  have f: "find_cursor_dbs Linux sample_home sample_tree (Some [lit ''data'']) =
     [global_storage @ [lit ''state.vscdb''], global_storage @ [lit ''sub'', lit ''a.db''],
      [lit ''data'', lit ''b.db'']]"
    unfolding find_cursor_dbs_def c by (simp add: sample_scans)
  note inst = no_duplicates_unless_override_overlaps[of Linux sample_home sample_tree
      "Some [lit ''data'']"]
  from inst a sample_names_distinct
  have d2: "distinct (find_cursor_dbs Linux sample_home sample_tree (Some [lit ''data'']))"
    by blast
  from override_apart_new[OF a]
  have n: "override_new Linux sample_home sample_tree (Some [lit ''data''])" .
  with inst
  have d1: "distinct (get_cursor_storage_paths Linux sample_home sample_tree (Some [lit ''data'']))"
    by blast
  from sample_names_distinct a n c f d1 d2 show ?thesis by (intro conjI)
qed

text \<open>
  With an override that coincides with a platform default or lies inside one the lists
  do have duplicates. With the override \<open>/home/u/.config/Cursor/User/globalStorage\<close>
  that location is a candidate twice and its two stores are found twice; with the override
  \<open>sub\<close> inside it, the store \<open>a.db\<close> is found twice.
\<close>

theorem override_scanned_twice:
  "get_cursor_storage_paths Linux sample_home sample_tree (Some global_storage) =
     [global_storage, global_storage] \<and>
   find_cursor_dbs Linux sample_home sample_tree (Some global_storage) =
     [global_storage @ [lit ''state.vscdb''], global_storage @ [lit ''sub'', lit ''a.db''],
      global_storage @ [lit ''state.vscdb''], global_storage @ [lit ''sub'', lit ''a.db'']] \<and>
   \<not> distinct (get_cursor_storage_paths Linux sample_home sample_tree (Some global_storage)) \<and>
   \<not> distinct (find_cursor_dbs Linux sample_home sample_tree (Some global_storage)) \<and>
   get_cursor_storage_paths Linux sample_home sample_tree (Some (global_storage @ [lit ''sub''])) =
     [global_storage, global_storage @ [lit ''sub'']] \<and>
   find_cursor_dbs Linux sample_home sample_tree (Some (global_storage @ [lit ''sub''])) =
     [global_storage @ [lit ''state.vscdb''], global_storage @ [lit ''sub'', lit ''a.db''],
      global_storage @ [lit ''sub'', lit ''a.db'']] \<and>
   \<not> distinct (find_cursor_dbs Linux sample_home sample_tree
                  (Some (global_storage @ [lit ''sub''])))"
proof -
  have c1: "get_cursor_storage_paths Linux sample_home sample_tree (Some global_storage) =
     [global_storage, global_storage]"
    by (simp add: get_cursor_storage_paths_def sample_candidates sample_exists)
  have f1: "find_cursor_dbs Linux sample_home sample_tree (Some global_storage) =
     [global_storage @ [lit ''state.vscdb''], global_storage @ [lit ''sub'', lit ''a.db''],
      global_storage @ [lit ''state.vscdb''], global_storage @ [lit ''sub'', lit ''a.db'']]"
    unfolding find_cursor_dbs_def c1 by (simp add: sample_scans)
  have c2: "get_cursor_storage_paths Linux sample_home sample_tree
      (Some (global_storage @ [lit ''sub''])) = [global_storage, global_storage @ [lit ''sub'']]"
    by (simp add: get_cursor_storage_paths_def sample_candidates sample_exists)
  have f2: "find_cursor_dbs Linux sample_home sample_tree (Some (global_storage @ [lit ''sub''])) =
     [global_storage @ [lit ''state.vscdb''], global_storage @ [lit ''sub'', lit ''a.db''],
      global_storage @ [lit ''sub'', lit ''a.db'']]"
    unfolding find_cursor_dbs_def c2 by (simp add: sample_scans)
  have n1: "\<not> distinct (get_cursor_storage_paths Linux sample_home sample_tree (Some global_storage))"
    unfolding c1 by simp
  have n2: "\<not> distinct (find_cursor_dbs Linux sample_home sample_tree (Some global_storage))"
    unfolding f1 by simp
  have n3: "\<not> distinct (find_cursor_dbs Linux sample_home sample_tree
                  (Some (global_storage @ [lit ''sub''])))"
    unfolding f2 by simp
  from c1 f1 n1 n2 c2 f2 n3 show ?thesis by (intro conjI)
qed

text \<open>
  C4. Command type resolution leaves every value that is not an integer key of the table
  unchanged. The code does not: \<open>isinstance(command_type, int)\<close> accepts a boolean, and
  \<open>True\<close> is the key \<open>1\<close> of the table, so an element whose \<open>commandType\<close> is the JSON
  value \<open>true\<close> gets the label \<open>chat\<close>. (The cases of the claim that hold are
  \<open>resolve_int_mapped\<close>, \<open>resolve_int_unmapped\<close>, \<open>resolve_not_int\<close> and
  \<open>resolve_examples\<close> above.)
\<close>

theorem boolean_command_type_becomes_chat:
  assumes "loads v =
     Inr (JArr [JObj [(key_text, JStr (lit ''hello'')), (key_commandType, JBool True)]])"
  shows "extract_prompts_from_value loads now k v =
     Inr [\<lparr> content = JStr (lit ''hello''), command_type = JStr (lit ''chat''),
            timestamp = JStr (isoformat (now k)),
            raw_data = [(key_text, JStr (lit ''hello'')), (key_commandType, JBool True)] \<rparr>]"
proof -
  have "extract_loop now k (rev [JObj [(key_text, JStr (lit ''hello'')), (key_commandType, JBool True)]]) =
     Inr [\<lparr> content = JStr (lit ''hello''), command_type = JStr (lit ''chat''),
            timestamp = JStr (isoformat (now k)),
            raw_data = [(key_text, JStr (lit ''hello'')), (key_commandType, JBool True)] \<rparr>]"
    by (simp add: loop_body_def strip_hello dict_get_def resolve_true)
  from extract_value_array_Inr[of loads v _ now k, OF assms this] show ?thesis .
qed

text \<open>The same at a decoder and a clock.\<close>

theorem boolean_command_type_becomes_chat_witness:
  "decodes_to (lit ''row'')
      (JArr [JObj [(key_text, JStr (lit ''hello'')), (key_commandType, JBool True)]]) (lit ''row'') =
     Inr (JArr [JObj [(key_text, JStr (lit ''hello'')), (key_commandType, JBool True)]]) \<and>
   extract_prompts_from_value
      (decodes_to (lit ''row'')
         (JArr [JObj [(key_text, JStr (lit ''hello'')), (key_commandType, JBool True)]]))
      sample_clock 0 (lit ''row'') =
     Inr [\<lparr> content = JStr (lit ''hello''), command_type = JStr (lit ''chat''),
            timestamp = JStr (lit ''2024-05-17T09:30:00''),
            raw_data = [(key_text, JStr (lit ''hello'')), (key_commandType, JBool True)] \<rparr>]"
proof -
  let ?loads = "decodes_to (lit ''row'')
      (JArr [JObj [(key_text, JStr (lit ''hello'')), (key_commandType, JBool True)]])"
  have h: "?loads (lit ''row'') =
     Inr (JArr [JObj [(key_text, JStr (lit ''hello'')), (key_commandType, JBool True)]])"
    by (simp add: decodes_to_def)
  from boolean_command_type_becomes_chat[of ?loads "lit ''row''" sample_clock 0, OF h] h
  show ?thesis by (simp add: isoformat_sample_clock_0)
qed


text \<open>
  C5. A row value on which \<open>json.loads\<close> raises \<open>JSONDecodeError\<close> (as it does on the
  text \<open>not json\<close>), or that decodes to a value that is not an array, makes
  \<open>extract_prompts_from_value\<close> return the empty list without an error: the row
  contributes no record, and the rows and stores before and after it are processed as if
  the row were not there, up to the result of \<open>main\<close>. The handler of line 159 catches
  nothing else, so this is not so for every value that is not valid JSON.
\<close>

theorem corrupt_row_contributes_nothing:
  assumes "json_loads decode from_bytes v = Inl JSONDecodeError \<or>
           (\<exists>j. json_loads decode from_bytes v = Inr j \<and> \<not> is_array j)"
  shows "extract_prompts_from_value (json_loads decode from_bytes) now k v = Inr [] \<and>
         extract_rows (json_loads decode from_bytes) now k (before @ Some v # after) =
           extract_rows (json_loads decode from_bytes) now k (before @ after) \<and>
         collect_prompts (json_loads decode from_bytes) now k
             (dbs1 @ StoreRows (before @ Some v # after) # dbs2) =
           collect_prompts (json_loads decode from_bytes) now k
             (dbs1 @ StoreRows (before @ after) # dbs2) \<and>
         main decode from_bytes now fmt fault workspace_path output
             (dbs1 @ StoreRows (before @ Some v # after) # dbs2) fs =
           main decode from_bytes now fmt fault workspace_path output
             (dbs1 @ StoreRows (before @ after) # dbs2) fs"
proof -
  let ?loads = "json_loads decode from_bytes"
  have e: "extract_prompts_from_value ?loads now k' v = Inr []" for k'
    using assms by (rule extract_value_no_array)
  have r: "extract_rows ?loads now k' (before @ Some v # after) =
             extract_rows ?loads now k' (before @ after)" for k'
    using e by (rule extract_rows_drop)
  have c: "collect_prompts ?loads now k' (dbs1 @ StoreRows (before @ Some v # after) # dbs2) =
             collect_prompts ?loads now k' (dbs1 @ StoreRows (before @ after) # dbs2)" for k'
    using r by (rule collect_prompts_cong)
  have m: "main decode from_bytes now fmt fault workspace_path output
             (dbs1 @ StoreRows (before @ Some v # after) # dbs2) fs =
           main decode from_bytes now fmt fault workspace_path output
             (dbs1 @ StoreRows (before @ after) # dbs2) fs"
    by (simp add: main_def c)
  from e r c m show ?thesis by blast
qed

text \<open>
  Two stores, the first with the row \<open>not json\<close>, or the row \<open>{}\<close>, between two rows of one
  prompt each: the three prompts of the other rows are collected, with the clock readings
  0, 1 and 2.
\<close>

theorem corrupt_row_contributes_nothing_witness:
  "json_loads sample_decode no_blob (SqlText (lit ''not json'')) = Inl JSONDecodeError \<and>
   collect_prompts (json_loads sample_decode no_blob) sample_clock 0
      [StoreRows [Some (SqlText hello_row), Some (SqlText (lit ''not json'')),
                  Some (SqlText hello_row)],
       StoreRows [Some (SqlText hello_row)]] =
     Inr [hello_record (sample_clock 0), hello_record (sample_clock 1),
          hello_record (sample_clock 2)] \<and>
   json_loads sample_decode no_blob (SqlText (lit ''{}'')) = Inr (JObj []) \<and>
   \<not> is_array (JObj []) \<and>
   collect_prompts (json_loads sample_decode no_blob) sample_clock 0
      [StoreRows [Some (SqlText hello_row), Some (SqlText (lit ''{}'')),
                  Some (SqlText hello_row)],
       StoreRows [Some (SqlText hello_row)]] =
     Inr [hello_record (sample_clock 0), hello_record (sample_clock 1),
          hello_record (sample_clock 2)]"
proof -
  let ?loads = "json_loads sample_decode no_blob"
  let ?h = "Some (SqlText hello_row)"
  have h1: "?loads (SqlText (lit ''not json'')) = Inl JSONDecodeError"
    by (simp add: json_loads_text sample_decode_values)
  have h2: "?loads (SqlText (lit ''{}'')) = Inr (JObj [])"
    by (simp add: json_loads_text sample_decode_values)
  have h2': "\<exists>j. ?loads (SqlText (lit ''{}'')) = Inr j \<and> \<not> is_array j"
    using h2 by simp
  have x: "extract_prompts_from_value ?loads sample_clock k (SqlText hello_row) =
             Inr [hello_record (sample_clock k)]" for k
    by (rule extract_hello_row) (rule sample_decode_values)
  have rest: "collect_prompts ?loads sample_clock 0 ([] @ StoreRows ([?h] @ [?h]) # [StoreRows [?h]]) =
     Inr [hello_record (sample_clock 0), hello_record (sample_clock 1),
          hello_record (sample_clock 2)]"
    by (simp add: x numeral_2_eq_2)
  note a = corrupt_row_contributes_nothing[of sample_decode no_blob "SqlText (lit ''not json'')"
      sample_clock 0 "[?h]" "[?h]" "[]" "[StoreRows [?h]]", OF disjI1, OF h1]
  note b = corrupt_row_contributes_nothing[of sample_decode no_blob "SqlText (lit ''{}'')"
      sample_clock 0 "[?h]" "[?h]" "[]" "[StoreRows [?h]]", OF disjI2, OF h2']
  from a rest have ca: "collect_prompts ?loads sample_clock 0
      [StoreRows [?h, Some (SqlText (lit ''not json'')), ?h], StoreRows [?h]] =
     Inr [hello_record (sample_clock 0), hello_record (sample_clock 1),
          hello_record (sample_clock 2)]"
    by simp
  from b rest have cb: "collect_prompts ?loads sample_clock 0
      [StoreRows [?h, Some (SqlText (lit ''{}'')), ?h], StoreRows [?h]] =
     Inr [hello_record (sample_clock 0), hello_record (sample_clock 1),
          hello_record (sample_clock 2)]"
    by simp
  from h1 h2 ca cb show ?thesis by simp
qed

text \<open>
  The property does not hold for every row value that is not valid JSON. A \<open>NULL\<close> cell
  is \<open>None\<close>, on which \<open>json.loads\<close> raises \<open>TypeError\<close>; on a text of 100000 opening
  brackets it raises \<open>RecursionError\<close>. Neither is a \<open>JSONDecodeError\<close>: the exception
  leaves \<open>extract_prompts_from_value\<close> and the two loops and reaches the handler of line
  252, and the prompts of the following row and store, which are collected when the row is
  not there, are lost.
\<close>

theorem corrupt_row_aborts_run:
  "json_loads sample_decode no_blob SqlNull = Inl TypeError \<and>
   extract_prompts_from_value (json_loads sample_decode no_blob) sample_clock 0 SqlNull =
     Inl TypeError \<and>
   collect_prompts (json_loads sample_decode no_blob) sample_clock 0
      [StoreRows [Some SqlNull, Some (SqlText hello_row)], StoreRows [Some (SqlText hello_row)]] =
     Inl TypeError \<and>
   main sample_decode no_blob sample_clock sample_format NoFault (lit ''ws'') (lit ''out.log'')
      [StoreRows [Some SqlNull, Some (SqlText hello_row)], StoreRows [Some (SqlText hello_row)]]
      Map.empty = (Failed TypeError, Map.empty) \<and>
   collect_prompts (json_loads sample_decode no_blob) sample_clock 0
      [StoreRows [Some (SqlText hello_row)], StoreRows [Some (SqlText hello_row)]] =
     Inr [hello_record (sample_clock 0), hello_record (sample_clock 1)] \<and>
   extract_prompts_from_value
      (json_loads (answers deep_brackets (Inl RecursionError) sample_decode) no_blob)
      sample_clock 0 (SqlText deep_brackets) = Inl RecursionError \<and>
   collect_prompts
      (json_loads (answers deep_brackets (Inl RecursionError) sample_decode) no_blob)
      sample_clock 0
      [StoreRows [Some (SqlText deep_brackets), Some (SqlText hello_row)],
       StoreRows [Some (SqlText hello_row)]] = Inl RecursionError \<and>
   collect_prompts
      (json_loads (answers deep_brackets (Inl RecursionError) sample_decode) no_blob)
      sample_clock 0
      [StoreRows [Some (SqlText hello_row)], StoreRows [Some (SqlText hello_row)]] =
     Inr [hello_record (sample_clock 0), hello_record (sample_clock 1)]"
proof -
  let ?loads = "json_loads sample_decode no_blob"
  let ?deep = "json_loads (answers deep_brackets (Inl RecursionError) sample_decode) no_blob"
  let ?h = "Some (SqlText hello_row)"
  have n: "?loads SqlNull = Inl TypeError" by (rule json_loads_no_text)
  have en: "extract_prompts_from_value ?loads sample_clock 0 SqlNull = Inl TypeError"
    by (rule extract_value_raises[of ?loads SqlNull TypeError sample_clock 0, OF n]) simp
  have cn: "collect_prompts ?loads sample_clock 0 [StoreRows [Some SqlNull, ?h], StoreRows [?h]] =
      Inl TypeError"
    by (rule collect_prompts_raises, rule extract_rows_raises, rule en)
  have mn: "main sample_decode no_blob sample_clock sample_format NoFault (lit ''ws'')
      (lit ''out.log'') [StoreRows [Some SqlNull, ?h], StoreRows [?h]] Map.empty =
      (Failed TypeError, Map.empty)"
    by (rule main_raises, rule cn)
  have x: "extract_prompts_from_value ?loads sample_clock k (SqlText hello_row) =
             Inr [hello_record (sample_clock k)]" for k
    by (rule extract_hello_row) (rule sample_decode_values)
  have g: "collect_prompts ?loads sample_clock 0 [StoreRows [?h], StoreRows [?h]] =
      Inr [hello_record (sample_clock 0), hello_record (sample_clock 1)]"
    by (simp add: x)
  have d: "?deep (SqlText deep_brackets) = Inl RecursionError"
    by (simp add: json_loads_text deep_decode_values)
  have ed: "extract_prompts_from_value ?deep sample_clock 0 (SqlText deep_brackets) =
      Inl RecursionError"
    by (rule extract_value_raises[of ?deep "SqlText deep_brackets" RecursionError sample_clock 0,
          OF d]) simp
  have cd: "collect_prompts ?deep sample_clock 0
      [StoreRows [Some (SqlText deep_brackets), ?h], StoreRows [?h]] = Inl RecursionError"
    by (rule collect_prompts_raises, rule extract_rows_raises, rule ed)
  have y: "extract_prompts_from_value ?deep sample_clock k (SqlText hello_row) =
             Inr [hello_record (sample_clock k)]" for k
    by (rule extract_hello_row) (rule deep_decode_values)
  have gd: "collect_prompts ?deep sample_clock 0 [StoreRows [?h], StoreRows [?h]] =
      Inr [hello_record (sample_clock 0), hello_record (sample_clock 1)]"
    by (simp add: y)
  from n en cn mn g ed cd gd show ?thesis by (intro conjI)
qed

text \<open>
  C6. With an empty list of records, \<open>write_prompts_to_log\<close> returns \<open>False\<close> and leaves
  every file as it was: nothing is created and nothing is written.
\<close>

theorem empty_list_writes_nothing:
  "write_prompts_to_log fmt fault t [] workspace_path output_file fs = (Inr False, fs)"
  by (simp add: write_prompts_to_log_def)


text \<open>
  C7. \<open>main\<close> sorts the whole list of collected records by the timestamp string,
  descending, before it renders them. When every timestamp is a string the sort returns a
  list \<open>qs\<close> that is a permutation of the records, in which the timestamp of a record
  listed earlier is greater than or equal to that of every record listed later (so of the
  next one) under the comparison of strings by code points, with records of equal
  timestamps in the order they were collected; nothing is parsed or changed; and \<open>qs\<close>
  is what \<open>write_prompts_to_log\<close> receives.
\<close>

theorem sorted_by_timestamp_descending:
  assumes "\<forall>r \<in> set ps. is_str (timestamp r)"
  shows "\<exists>qs. sort_prompts ps = Inr qs \<and> mset qs = mset ps \<and>
           sorted_wrt (\<lambda>a b. the_str (timestamp a) \<ge> the_str (timestamp b)) qs \<and>
           (\<forall>i. Suc i < length qs \<longrightarrow>
                the_str (timestamp (qs ! i)) \<ge> the_str (timestamp (qs ! Suc i))) \<and>
           (\<forall>t. filter (\<lambda>r. timestamp r = t) qs = filter (\<lambda>r. timestamp r = t) ps) \<and>
           (dbs \<noteq> [] \<and> collect_prompts (json_loads decode from_bytes) now 0 dbs = Inr ps \<longrightarrow>
              main decode from_bytes now fmt fault workspace_path output dbs fs =
                (case write_prompts_to_log fmt fault (now (length ps)) qs workspace_path output fs of
                   (Inl e, fs') \<Rightarrow> (Failed e, fs')
                 | (Inr ok, fs') \<Rightarrow> (Rendered ok, fs')))"
proof -
  from sort_prompts_str[OF assms] obtain qs where q: "sort_prompts ps = Inr qs"
      "sorted_wrt (\<lambda>a b. the_str (timestamp b) \<le> the_str (timestamp a)) qs"
      "\<And>t. filter (\<lambda>r. timestamp r = t) qs = filter (\<lambda>r. timestamp r = t) ps"
    by blast
  from q(1) have m: "mset qs = mset ps" by (rule sort_prompts_mset)
  have adj: "the_str (timestamp (qs ! Suc i)) \<le> the_str (timestamp (qs ! i))"
    if "Suc i < length qs" for i
    using sorted_wrt_adjacent[OF q(2) that] .
  have mn: "main decode from_bytes now fmt fault workspace_path output dbs fs =
                (case write_prompts_to_log fmt fault (now (length ps)) qs workspace_path output fs of
                   (Inl e, fs') \<Rightarrow> (Failed e, fs')
                 | (Inr ok, fs') \<Rightarrow> (Rendered ok, fs'))"
    if "dbs \<noteq> []" "collect_prompts (json_loads decode from_bytes) now 0 dbs = Inr ps"
    using that q(1) by (rule main_renders_sorted)
  show ?thesis
  proof (intro exI[of _ qs] conjI allI impI)
    show "sort_prompts ps = Inr qs" by (rule q(1))
    show "mset qs = mset ps" by (rule m)
    show "sorted_wrt (\<lambda>a b. the_str (timestamp a) \<ge> the_str (timestamp b)) qs" by (rule q(2))
    show "the_str (timestamp (qs ! Suc i)) \<le> the_str (timestamp (qs ! i))"
      if "Suc i < length qs" for i using that by (rule adj)
    show "filter (\<lambda>r. timestamp r = t) qs = filter (\<lambda>r. timestamp r = t) ps" for t by (rule q(3))
    show "main decode from_bytes now fmt fault workspace_path output dbs fs =
                (case write_prompts_to_log fmt fault (now (length ps)) qs workspace_path output fs of
                   (Inl e, fs') \<Rightarrow> (Failed e, fs')
                 | (Inr ok, fs') \<Rightarrow> (Rendered ok, fs'))"
      if "dbs \<noteq> [] \<and> collect_prompts (json_loads decode from_bytes) now 0 dbs = Inr ps"
      using that mn by blast
  qed
qed

text \<open>
  A row whose array holds the prompts of 2 January, 1 January and 3 January: they are
  collected as 3, 1, 2 January and rendered as 3, 2, 1 January.
\<close>

theorem sorted_by_timestamp_descending_witness:
  "list_all (\<lambda>r. is_str (timestamp r))
      [dated_record jan3, dated_record jan1, dated_record jan2] \<and>
   collect_prompts
      (json_loads (decodes_to (lit ''row'')
         (JArr [dated_prompt jan2, dated_prompt jan1, dated_prompt jan3])) no_blob)
      sample_clock 0 [StoreRows [Some (SqlText (lit ''row''))]] =
     Inr [dated_record jan3, dated_record jan1, dated_record jan2] \<and>
   sort_prompts [dated_record jan3, dated_record jan1, dated_record jan2] =
     Inr [dated_record jan3, dated_record jan2, dated_record jan1] \<and>
   jan3 \<ge> jan2 \<and> jan2 \<ge> jan1 \<and>
   main (decodes_to (lit ''row'') (JArr [dated_prompt jan2, dated_prompt jan1, dated_prompt jan3]))
      no_blob sample_clock sample_format NoFault (lit ''ws'') (lit ''out.log'')
      [StoreRows [Some (SqlText (lit ''row''))]] Map.empty =
     (Rendered True,
      [lit ''out.log'' \<mapsto>
         concat (header_writes (sample_clock 3) (lit ''ws'') @
                 concat (map (prompt_writes sample_format)
                    [dated_record jan3, dated_record jan2, dated_record jan1]))])"
proof -
  let ?ps = "[dated_record jan3, dated_record jan1, dated_record jan2]"
  let ?qs = "[dated_record jan3, dated_record jan2, dated_record jan1]"
  let ?decode = "decodes_to (lit ''row'')
         (JArr [dated_prompt jan2, dated_prompt jan1, dated_prompt jan3])"
  let ?dbs = "[StoreRows [Some (SqlText (lit ''row''))]]"
  have strs: "\<forall>r \<in> set ?ps. is_str (timestamp r)"
    by (simp add: dated_record_def)
  have l: "json_loads ?decode no_blob (SqlText (lit ''row'')) =
      Inr (JArr [dated_prompt jan2, dated_prompt jan1, dated_prompt jan3])"
    by (simp add: json_loads_text decodes_to_def)
  have "extract_loop sample_clock 0 (rev [dated_prompt jan2, dated_prompt jan1, dated_prompt jan3]) =
      Inr ?ps"
    by (simp add: dated_loop)
  from extract_value_array_Inr[of "json_loads ?decode no_blob" "SqlText (lit ''row'')" _ sample_clock 0,
      OF l this]
  have c: "collect_prompts (json_loads ?decode no_blob) sample_clock 0 ?dbs = Inr ?ps"
    by simp
  have d: "?dbs \<noteq> []" by simp
  from sorted_by_timestamp_descending[OF strs, of ?dbs ?decode no_blob sample_clock sample_format
      NoFault "lit ''ws''" "lit ''out.log''" Map.empty]
  obtain qs where q: "sort_prompts ?ps = Inr qs"
      "sorted_wrt (\<lambda>a b. the_str (timestamp a) \<ge> the_str (timestamp b)) qs"
      "?dbs \<noteq> [] \<and> collect_prompts (json_loads ?decode no_blob) sample_clock 0 ?dbs = Inr ?ps \<longrightarrow>
       main ?decode no_blob sample_clock sample_format NoFault (lit ''ws'') (lit ''out.log'') ?dbs
          Map.empty =
         (case write_prompts_to_log sample_format NoFault (sample_clock (length ?ps)) qs
                 (lit ''ws'') (lit ''out.log'') Map.empty of
            (Inl e, fs') \<Rightarrow> (Failed e, fs')
          | (Inr ok, fs') \<Rightarrow> (Rendered ok, fs'))"
    by blast
  from q(1) sort_jan have qs: "qs = ?qs" by simp
  from q(2) qs have o: "jan3 \<ge> jan2 \<and> jan2 \<ge> jan1" by (simp add: dated_record_def)
  have w: "write_prompts_to_log sample_format NoFault (sample_clock 3) ?qs (lit ''ws'')
      (lit ''out.log'') Map.empty =
      (Inr True, [lit ''out.log'' \<mapsto>
         concat (header_writes (sample_clock 3) (lit ''ws'') @
                 concat (map (prompt_writes sample_format) ?qs))])"
    by (rule write_prompts_to_log_ok) (simp_all add: header_encodable dated_records_encodable)
  from q(3) c d have m0: "main ?decode no_blob sample_clock sample_format NoFault (lit ''ws'')
      (lit ''out.log'') ?dbs Map.empty =
         (case write_prompts_to_log sample_format NoFault (sample_clock (length ?ps)) qs
                 (lit ''ws'') (lit ''out.log'') Map.empty of
            (Inl e, fs') \<Rightarrow> (Failed e, fs')
          | (Inr ok, fs') \<Rightarrow> (Rendered ok, fs'))"
    by blast
  have len: "length ?ps = 3" by simp
  have m: "main ?decode no_blob sample_clock sample_format NoFault (lit ''ws'')
      (lit ''out.log'') ?dbs Map.empty =
     (Rendered True,
      [lit ''out.log'' \<mapsto>
         concat (header_writes (sample_clock 3) (lit ''ws'') @
                 concat (map (prompt_writes sample_format) ?qs))])"
    unfolding m0 qs len w by simp
  from strs have "list_all (\<lambda>r. is_str (timestamp r)) ?ps" by (simp add: list_all_iff)
  moreover note c sort_jan
  moreover from o have "jan3 \<ge> jan2" "jan2 \<ge> jan1" by simp_all
  moreover note m
  ultimately show ?thesis by (intro conjI)
qed

text \<open>
  C8. The elements of the decoded array are processed in reverse order: the records that
  \<open>extract_prompts_from_value\<close> returns are those of the well-formed elements, in the
  reverse of their order in the array. It returns records whenever every \<open>text\<close> field
  of the array is a string.
\<close>

theorem records_in_reverse_array_order:
  assumes "loads v = Inr (JArr xs)"
  shows "(\<forall>rs. extract_prompts_from_value loads now k v = Inr rs \<longrightarrow>
            map (\<lambda>r. JObj (raw_data r)) rs = rev (filter well_formed xs)) \<and>
         ((\<forall>x \<in> set xs. text_typed x) \<longrightarrow>
            (\<exists>rs. extract_prompts_from_value loads now k v = Inr rs))"
proof (intro conjI allI impI)
  fix rs
  assume r: "extract_prompts_from_value loads now k v = Inr rs"
  with extract_value_array[of loads v xs now k, OF assms]
  have "extract_loop now k (rev xs) = Inr rs" by (simp split: sum.splits)
  from extract_loop_raw[OF this] show "map (\<lambda>r. JObj (raw_data r)) rs = rev (filter well_formed xs)"
    by (simp add: rev_filter)
next
  assume "\<forall>x \<in> set xs. text_typed x"
  then have "\<forall>x \<in> set (rev xs). text_typed x" by simp
  from extract_loop_typed[OF this, of now k] obtain rs where "extract_loop now k (rev xs) = Inr rs"
    by blast
  from extract_value_array_Inr[of loads v xs now k rs, OF assms this] show "\<exists>rs. extract_prompts_from_value loads now k v = Inr rs"
    by blast
qed

text \<open>An array of two well-formed elements: the second comes out first.\<close>

theorem records_in_reverse_array_order_witness:
  "decodes_to (lit ''row'')
      (JArr [JObj [(key_text, JStr (lit ''first''))], JObj [(key_text, JStr (lit ''second''))]])
      (lit ''row'') =
     Inr (JArr [JObj [(key_text, JStr (lit ''first''))], JObj [(key_text, JStr (lit ''second''))]]) \<and>
   list_all text_typed
      [JObj [(key_text, JStr (lit ''first''))], JObj [(key_text, JStr (lit ''second''))]] \<and>
   (\<exists>rs. extract_prompts_from_value
            (decodes_to (lit ''row'')
              (JArr [JObj [(key_text, JStr (lit ''first''))],
                     JObj [(key_text, JStr (lit ''second''))]]))
            sample_clock 0 (lit ''row'') = Inr rs \<and>
         map (\<lambda>r. JObj (raw_data r)) rs =
           [JObj [(key_text, JStr (lit ''second''))], JObj [(key_text, JStr (lit ''first''))]])"
proof -
  let ?a = "JObj [(key_text, JStr (lit ''first''))]"
  let ?b = "JObj [(key_text, JStr (lit ''second''))]"
  let ?loads = "decodes_to (lit ''row'') (JArr [?a, ?b])"
  have h: "?loads (lit ''row'') = Inr (JArr [?a, ?b])"
    by (simp add: decodes_to_def)
  have t: "\<forall>x \<in> set [?a, ?b]. text_typed x"
    by (simp add: text_typed_def)
  have w: "filter well_formed [?a, ?b] = [?a, ?b]"
    by (simp add: well_formed_def strip_first strip_second)
  note inst = records_in_reverse_array_order[of ?loads "lit ''row''" "[?a, ?b]" sample_clock 0, OF h]
  from inst t obtain rs where
    rs: "extract_prompts_from_value ?loads sample_clock 0 (lit ''row'') = Inr rs"
    by blast
  with inst have "map (\<lambda>r. JObj (raw_data r)) rs = rev (filter well_formed [?a, ?b])"
    by blast
  with w have m: "map (\<lambda>r. JObj (raw_data r)) rs = [?b, ?a]" by simp
  from rs m have "\<exists>rs. extract_prompts_from_value ?loads sample_clock 0 (lit ''row'') = Inr rs \<and>
         map (\<lambda>r. JObj (raw_data r)) rs = [?b, ?a]"
    by (intro exI[of _ rs] conjI)
  moreover from t have "list_all text_typed [?a, ?b]" by simp
  ultimately show ?thesis using h by (intro conjI)
qed


text \<open>
  C9. A record made from an element without a \<open>timestamp\<close> field carries the capture
  time: the ISO format of the clock reading made for that element, a string that is never
  empty and never \<open>None\<close>, and that has the ISO 8601 shape whenever the reading is a valid
  date and time.
\<close>

theorem missing_timestamp_gets_capture_time:
  assumes "extract_prompts_from_value loads now k v = Inr rs"
    and "i < length rs"
    and "map_of (raw_data (rs ! i)) key_timestamp = None"
  shows "timestamp (rs ! i) = JStr (isoformat (now (k + i))) \<and>
         isoformat (now (k + i)) \<noteq> [] \<and>
         timestamp (rs ! i) \<noteq> JNull \<and>
         (valid_datetime (now (k + i)) \<longrightarrow> iso8601_like (isoformat (now (k + i))))"
proof -
  from extract_value_nth[OF assms(1,2)]
  have "timestamp (rs ! i) =
          dict_get (raw_data (rs ! i)) key_timestamp (JStr (isoformat (now (k + i))))"
    by (rule loop_body_fields(1))
  with assms(3) have "timestamp (rs ! i) = JStr (isoformat (now (k + i)))"
    by (simp add: dict_get_def)
  then show ?thesis
    by (simp add: isoformat_nonempty isoformat_shape)
qed

text \<open>An element with a \<open>text\<close> only, read at 09:30:00 on 17 May 2024.\<close>

theorem missing_timestamp_gets_capture_time_witness:
  "extract_prompts_from_value
      (decodes_to (lit ''row'') (JArr [JObj [(key_text, JStr (lit ''hello''))]]))
      sample_clock 0 (lit ''row'') =
     Inr [\<lparr> content = JStr (lit ''hello''), command_type = JStr (lit ''unknown''),
            timestamp = JStr (lit ''2024-05-17T09:30:00''),
            raw_data = [(key_text, JStr (lit ''hello''))] \<rparr>] \<and>
   map_of [(key_text, JStr (lit ''hello''))] key_timestamp = None \<and>
   valid_datetime (sample_clock 0) \<and>
   iso8601_like (lit ''2024-05-17T09:30:00'')"
proof -
  let ?r = "\<lparr> content = JStr (lit ''hello''), command_type = JStr (lit ''unknown''),
            timestamp = JStr (lit ''2024-05-17T09:30:00''),
            raw_data = [(key_text, JStr (lit ''hello''))] \<rparr>"
  have "loop_body (sample_clock 0) (JObj [(key_text, JStr (lit ''hello''))]) = Inr (Some ?r)"
    by (simp add: loop_body_def strip_hello dict_get_def resolve_str isoformat_sample_clock_0)
  then have e: "extract_prompts_from_value
      (decodes_to (lit ''row'') (JArr [JObj [(key_text, JStr (lit ''hello''))]]))
      sample_clock 0 (lit ''row'') = Inr [?r]"
    by (rule extract_single)
  have m: "map_of (raw_data ([?r] ! 0)) key_timestamp = None"
    by simp
  have len: "0 < length [?r]" by simp
  from missing_timestamp_gets_capture_time[OF e len m] sample_clock_valid[of 0]
  have "iso8601_like (isoformat (sample_clock 0))" by simp
  with e m sample_clock_valid[of 0] show ?thesis
    by (simp add: isoformat_sample_clock_0)
qed




end
